theory Spec2Isabelle
  imports Complex_Main
begin

section \<open>Common conventions\<close>

text \<open>
  The JavaScript modules keep their collections in module-level variables and mutate them
  in place. Each operation is modelled as a function that takes the collection and returns the
  result together with the collection after the call. \<open>Date.now()\<close> is passed in as
  the argument \<open>now\<close>, in milliseconds; the ISO strings the code stores are the same
  instants, so every timestamp is an \<open>int\<close> of milliseconds. A field that an object
  may lack is an \<open>option\<close>. Writing to disk (\<open>saveEscalations\<close>, \<open>saveFaqAnswers\<close>,
  \<open>savePendingDms\<close>) and logging leave the in-memory collection untouched and are not modelled.
\<close>

text \<open>
  \<open>new Date(t).toISOString()\<close> throws a \<open>RangeError\<close> when \<open>t\<close> is not a time a
  \<open>Date\<close> can hold, that is, when it lies more than 8.64e15 milliseconds from the epoch.
  The stores build such a date from an argument in one place each, the deadline
  \<open>Date.now() + delay\<close>; the clock itself is always a valid time. A call that throws has
  no return value, and the assignments made before the throw stay.
\<close>

datatype store_error = RangeError

definition maxTimeMs :: int where
  "maxTimeMs = 8640000000000000"

definition validTime :: "int \<Rightarrow> bool" where
  "validTime t = (- maxTimeMs \<le> t \<and> t \<le> maxTimeMs)"

text \<open>
  \<open>arr.find(p)\<close> followed by assignments to the fields of the object found changes the
  first element that satisfies \<open>p\<close>.
\<close>

fun update_first :: "('a \<Rightarrow> bool) \<Rightarrow> ('a \<Rightarrow> 'a) \<Rightarrow> 'a list \<Rightarrow> 'a list" where
  "update_first P f [] = []"
| "update_first P f (x # xs) = (if P x then f x # xs else x # update_first P f xs)"

section \<open>Escalation store (escalation-tracker.js)\<close>

record escalation =
  e_id :: string
  e_channel :: string
  e_threadTs :: string
  e_messageTs :: string
  e_productAreaId :: string
  e_originalQuestion :: string
  e_ownerUserIds :: "string list"
  escalatedAt :: int
  e_status :: string
  e_firstResponseAt :: "int option"
  synthesizeAfter :: "int option"
  completedAt :: "int option"
  skippedAt :: "int option"
  faqUrl :: "string option"
  skipReason :: "string option"

text \<open>\<open>trackEscalation\<close>: the identifier (time stamp plus random bytes) is an argument.\<close>

definition trackEscalation ::
  "string \<Rightarrow> string \<Rightarrow> string \<Rightarrow> string \<Rightarrow> string \<Rightarrow> string \<Rightarrow> string list \<Rightarrow> int
     \<Rightarrow> escalation list \<Rightarrow> escalation \<times> escalation list" where
  "trackEscalation newId channel threadTs messageTs productAreaId originalQuestion ownerUserIds now store =
     (let escalation = \<lparr> e_id = newId, e_channel = channel, e_threadTs = threadTs,
            e_messageTs = messageTs, e_productAreaId = productAreaId,
            e_originalQuestion = originalQuestion, e_ownerUserIds = ownerUserIds,
            escalatedAt = now, e_status = ''awaiting_response'',
            e_firstResponseAt = None, synthesizeAfter = None, completedAt = None,
            skippedAt = None, faqUrl = None, skipReason = None \<rparr>
      in (escalation, store @ [escalation]))"

definition getEscalationById :: "string \<Rightarrow> escalation list \<Rightarrow> escalation option" where
  "getEscalationById i store = find (\<lambda>e. e_id e = i) store"

text \<open>
  \<open>recordOwnerResponse\<close> sets the status and \<open>firstResponseAt\<close>, then computes
  \<open>synthesizeAfter\<close>, which is where it may throw.
\<close>

definition recordOwnerResponse ::
  "string \<Rightarrow> int \<Rightarrow> int \<Rightarrow> escalation list \<Rightarrow> (store_error + bool) \<times> escalation list" where
  "recordOwnerResponse i synthesisDelayMs now store =
     (case getEscalationById i store of
        None \<Rightarrow> (Inr False, store)
      | Some escalation \<Rightarrow>
          if e_status escalation \<noteq> ''awaiting_response'' then (Inr False, store)
          else if validTime (now + synthesisDelayMs)
          then (Inr True, update_first (\<lambda>e. e_id e = i)
                  (\<lambda>e. e\<lparr> e_status := ''ready_to_synthesize'',
                          e_firstResponseAt := Some now,
                          synthesizeAfter := Some (now + synthesisDelayMs) \<rparr>) store)
          else (Inl RangeError, update_first (\<lambda>e. e_id e = i)
                  (\<lambda>e. e\<lparr> e_status := ''ready_to_synthesize'',
                          e_firstResponseAt := Some now \<rparr>) store))"

definition getEscalationsReadyToSynthesize :: "int \<Rightarrow> escalation list \<Rightarrow> escalation list" where
  "getEscalationsReadyToSynthesize now store =
     filter (\<lambda>e. e_status e = ''ready_to_synthesize'' \<and>
                 (case synthesizeAfter e of None \<Rightarrow> False | Some t \<Rightarrow> t \<le> now)) store"

text \<open>\<open>if (faqUrl)\<close> holds for a string that is present and not empty.\<close>

definition markEscalationComplete ::
  "string \<Rightarrow> string option \<Rightarrow> int \<Rightarrow> escalation list \<Rightarrow> bool \<times> escalation list" where
  "markEscalationComplete i url now store =
     (case getEscalationById i store of
        None \<Rightarrow> (False, store)
      | Some escalation \<Rightarrow>
          (True, update_first (\<lambda>e. e_id e = i)
             (\<lambda>e. let e1 = e\<lparr> e_status := ''completed'', completedAt := Some now \<rparr>
                  in (case url of
                        None \<Rightarrow> e1
                      | Some u \<Rightarrow> if u = [] then e1 else e1\<lparr> faqUrl := Some u \<rparr>)) store))"

definition markEscalationSkipped ::
  "string \<Rightarrow> string \<Rightarrow> int \<Rightarrow> escalation list \<Rightarrow> bool \<times> escalation list" where
  "markEscalationSkipped i reason now store =
     (case getEscalationById i store of
        None \<Rightarrow> (False, store)
      | Some escalation \<Rightarrow>
          (True, update_first (\<lambda>e. e_id e = i)
             (\<lambda>e. e\<lparr> e_status := ''skipped'', skippedAt := Some now,
                     skipReason := Some reason \<rparr>) store))"

text \<open>\<open>e.completedAt || e.skippedAt || e.escalatedAt\<close>\<close>

definition escalationTimestamp :: "escalation \<Rightarrow> int" where
  "escalationTimestamp e =
     (case completedAt e of
        Some t \<Rightarrow> t
      | None \<Rightarrow> (case skippedAt e of Some t \<Rightarrow> t | None \<Rightarrow> escalatedAt e))"

definition msPerDay :: int where
  "msPerDay = 24 * 60 * 60 * 1000"

text \<open>
  \<open>cleanupOldEscalations\<close> returns the number of records removed. The filter keeps a
  record whose status is the string \<open>pending\<close>, as the source writes it.
\<close>

definition keepEscalation :: "int \<Rightarrow> escalation \<Rightarrow> bool" where
  "keepEscalation cutoff e =
     (if e_status e = ''pending'' then True else escalationTimestamp e > cutoff)"

definition cleanupOldEscalations :: "int \<Rightarrow> int \<Rightarrow> escalation list \<Rightarrow> nat \<times> escalation list" where
  "cleanupOldEscalations maxAgeDays now store =
     (let cutoff = now - maxAgeDays * msPerDay;
          kept = filter (keepEscalation cutoff) store
      in (length store - length kept, kept))"

section \<open>Tracked-answer store (answer-tracker.js)\<close>

text \<open>
  \<open>processInfo\<close> and \<open>correctionInfo\<close> are objects the store only keeps; they are
  carried as a string. \<open>respondingOwnerIds\<close> is created as \<open>[]\<close> by \<open>trackFaqAnswer\<close>,
  and \<open>recordCorrectionResponse\<close> replaces a missing one by \<open>[]\<close>: the list is always present
  in the model.
\<close>

record tracked_answer =
  a_id :: string
  a_channel :: string
  a_threadTs :: string
  a_messageTs :: string
  a_productAreaId :: string
  a_originalQuestion :: string
  botAnswer :: string
  evidence :: "string list"
  a_ownerUserIds :: "string list"
  kbSourcePageIds :: "string list"
  answeredAt :: int
  a_status :: string
  respondingOwnerIds :: "string list"
  a_firstResponseAt :: "int option"
  processAfter :: "int option"
  processedAt :: "int option"
  processInfo :: "string option"
  correctedAt :: "int option"
  correctionInfo :: "string option"

definition trackFaqAnswer ::
  "string \<Rightarrow> string \<Rightarrow> string \<Rightarrow> string \<Rightarrow> string \<Rightarrow> string \<Rightarrow> string \<Rightarrow> string list
     \<Rightarrow> string list \<Rightarrow> string list \<Rightarrow> int \<Rightarrow> tracked_answer list
     \<Rightarrow> tracked_answer \<times> tracked_answer list" where
  "trackFaqAnswer newId channel threadTs messageTs productAreaId originalQuestion answerText
       evidenceSnippets ownerUserIds sourcePageIds now store =
     (let answer = \<lparr> a_id = newId, a_channel = channel, a_threadTs = threadTs,
            a_messageTs = messageTs, a_productAreaId = productAreaId,
            a_originalQuestion = originalQuestion, botAnswer = answerText,
            evidence = evidenceSnippets, a_ownerUserIds = ownerUserIds,
            kbSourcePageIds = sourcePageIds, answeredAt = now, a_status = ''active'',
            respondingOwnerIds = [], a_firstResponseAt = None, processAfter = None,
            processedAt = None, processInfo = None, correctedAt = None,
            correctionInfo = None \<rparr>
      in (answer, store @ [answer]))"

definition getFaqAnswerById :: "string \<Rightarrow> tracked_answer list \<Rightarrow> tracked_answer option" where
  "getFaqAnswerById i store = find (\<lambda>a. a_id a = i) store"

text \<open>
  The body of \<open>recordCorrectionResponse\<close> after the two guards: push the user unless
  already included, then start the timer when the status is \<open>active\<close>. The status and
  \<open>firstResponseAt\<close> are assigned before \<open>processAfter\<close> is computed; when that throws,
  \<open>processAfter\<close> keeps its value. \<open>noteResponse\<close> is the record after the body,
  \<open>noteResponseThrows\<close> tells whether the body throws.
\<close>

definition noteResponse :: "string \<Rightarrow> int \<Rightarrow> int \<Rightarrow> tracked_answer \<Rightarrow> tracked_answer" where
  "noteResponse userId delayMs now a =
     (let a1 = (if userId \<in> set (respondingOwnerIds a) then a
                else a\<lparr> respondingOwnerIds := respondingOwnerIds a @ [userId] \<rparr>)
      in if a_status a1 = ''active''
         then (let a2 = a1\<lparr> a_status := ''pending_correction'', a_firstResponseAt := Some now \<rparr>
               in if validTime (now + delayMs) then a2\<lparr> processAfter := Some (now + delayMs) \<rparr>
                  else a2)
         else a1)"

definition noteResponseThrows :: "int \<Rightarrow> int \<Rightarrow> tracked_answer \<Rightarrow> bool" where
  "noteResponseThrows delayMs now a = (a_status a = ''active'' \<and> \<not> validTime (now + delayMs))"

definition recordCorrectionResponse ::
  "string \<Rightarrow> string \<Rightarrow> int \<Rightarrow> int \<Rightarrow> tracked_answer list
     \<Rightarrow> (store_error + bool) \<times> tracked_answer list" where
  "recordCorrectionResponse i userId delayMs now store =
     (case getFaqAnswerById i store of
        None \<Rightarrow> (Inr False, store)
      | Some answer \<Rightarrow>
          if a_status answer = ''corrected'' \<or> a_status answer = ''processed''
          then (Inr False, store)
          else (if noteResponseThrows delayMs now answer then Inl RangeError else Inr True,
                update_first (\<lambda>a. a_id a = i) (noteResponse userId delayMs now) store))"

definition getAnswersReadyToProcess :: "int \<Rightarrow> tracked_answer list \<Rightarrow> tracked_answer list" where
  "getAnswersReadyToProcess now store =
     filter (\<lambda>a. a_status a = ''pending_correction'' \<and>
                 (case processAfter a of None \<Rightarrow> False | Some t \<Rightarrow> t \<le> now)) store"

definition markAnswerProcessed ::
  "string \<Rightarrow> string \<Rightarrow> int \<Rightarrow> tracked_answer list \<Rightarrow> bool \<times> tracked_answer list" where
  "markAnswerProcessed i info now store =
     (case getFaqAnswerById i store of
        None \<Rightarrow> (False, store)
      | Some answer \<Rightarrow>
          (True, update_first (\<lambda>a. a_id a = i)
             (\<lambda>a. a\<lparr> a_status := ''processed'', processedAt := Some now,
                     processInfo := Some info \<rparr>) store))"

definition markAnswerCorrected ::
  "string \<Rightarrow> string \<Rightarrow> int \<Rightarrow> tracked_answer list \<Rightarrow> bool \<times> tracked_answer list" where
  "markAnswerCorrected i info now store =
     (case getFaqAnswerById i store of
        None \<Rightarrow> (False, store)
      | Some answer \<Rightarrow>
          (True, update_first (\<lambda>a. a_id a = i)
             (\<lambda>a. a\<lparr> a_status := ''corrected'', correctedAt := Some now,
                     correctionInfo := Some info \<rparr>) store))"

text \<open>\<open>a.correctedAt || a.processedAt || a.answeredAt\<close>\<close>

definition answerTimestamp :: "tracked_answer \<Rightarrow> int" where
  "answerTimestamp a =
     (case correctedAt a of
        Some t \<Rightarrow> t
      | None \<Rightarrow> (case processedAt a of Some t \<Rightarrow> t | None \<Rightarrow> answeredAt a))"

definition keepFaqAnswer :: "int \<Rightarrow> tracked_answer \<Rightarrow> bool" where
  "keepFaqAnswer cutoff a =
     (if a_status a = ''active'' \<or> a_status a = ''pending_correction'' then True
      else answerTimestamp a > cutoff)"

definition cleanupOldFaqAnswers ::
  "int \<Rightarrow> int \<Rightarrow> tracked_answer list \<Rightarrow> nat \<times> tracked_answer list" where
  "cleanupOldFaqAnswers maxAgeDays now store =
     (let cutoff = now - maxAgeDays * msPerDay;
          kept = filter (keepFaqAnswer cutoff) store
      in (length store - length kept, kept))"

section \<open>Stages of a status and sequences of store operations\<close>

text \<open>
  The position of a status in its lifecycle: 0 for the initial status, 1 for the status
  that waits for the periodic job, 2 for every other string (the terminal statuses).
\<close>

definition esc_stage :: "string \<Rightarrow> nat" where
  "esc_stage s = (if s = ''awaiting_response'' then 0 else if s = ''ready_to_synthesize'' then 1 else 2)"

definition ans_stage :: "string \<Rightarrow> nat" where
  "ans_stage s = (if s = ''active'' then 0 else if s = ''pending_correction'' then 1 else 2)"

text \<open>
  The operations that change the status of a stored record, and runs of them; each operation
  comes with the time at which it runs.
\<close>

datatype esc_op =
    RecordOwnerResponse string int
  | MarkEscalationComplete string "string option"
  | MarkEscalationSkipped string string

fun esc_apply :: "esc_op \<Rightarrow> int \<Rightarrow> escalation list \<Rightarrow> escalation list" where
  "esc_apply (RecordOwnerResponse i d) now store = snd (recordOwnerResponse i d now store)"
| "esc_apply (MarkEscalationComplete i url) now store = snd (markEscalationComplete i url now store)"
| "esc_apply (MarkEscalationSkipped i reason) now store = snd (markEscalationSkipped i reason now store)"

fun esc_run :: "(esc_op \<times> int) list \<Rightarrow> escalation list \<Rightarrow> escalation list" where
  "esc_run [] store = store"
| "esc_run ((opn, now) # rest) store = esc_run rest (esc_apply opn now store)"

datatype ans_op =
    RecordCorrectionResponse string string int
  | MarkAnswerProcessed string string
  | MarkAnswerCorrected string string

fun ans_apply :: "ans_op \<Rightarrow> int \<Rightarrow> tracked_answer list \<Rightarrow> tracked_answer list" where
  "ans_apply (RecordCorrectionResponse i u d) now store = snd (recordCorrectionResponse i u d now store)"
| "ans_apply (MarkAnswerProcessed i info) now store = snd (markAnswerProcessed i info now store)"
| "ans_apply (MarkAnswerCorrected i info) now store = snd (markAnswerCorrected i info now store)"

fun ans_run :: "(ans_op \<times> int) list \<Rightarrow> tracked_answer list \<Rightarrow> tracked_answer list" where
  "ans_run [] store = store"
| "ans_run ((opn, now) # rest) store = ans_run rest (ans_apply opn now store)"

text \<open>A record and its later self: same identifier, stage not lower.\<close>

definition esc_le :: "escalation \<Rightarrow> escalation \<Rightarrow> bool" where
  "esc_le e e' = (e_id e' = e_id e \<and> esc_stage (e_status e) \<le> esc_stage (e_status e'))"

definition ans_le :: "tracked_answer \<Rightarrow> tracked_answer \<Rightarrow> bool" where
  "ans_le a a' = (a_id a' = a_id a \<and> ans_stage (a_status a) \<le> ans_stage (a_status a'))"

text \<open>
  The reading of the specification: a status stays or moves to a strictly later stage.
\<close>

definition status_advances :: "(string \<Rightarrow> nat) \<Rightarrow> string \<Rightarrow> string \<Rightarrow> bool" where
  "status_advances stage s s' = (s' = s \<or> stage s < stage s')"

section \<open>Example records\<close>

definition exampleEscalation :: escalation where
  "exampleEscalation = fst (trackEscalation ''esc_1'' ''C1'' ''100.1'' ''100.1'' ''billing''
      ''How do refunds work?'' [''U1''] 1000 [])"

definition exampleAnswer :: tracked_answer where
  "exampleAnswer = fst (trackFaqAnswer ''ans_1'' ''C1'' ''100.1'' ''100.2'' ''billing''
      ''How do refunds work?'' ''Refunds take 5 days.'' [''Refunds take 5 days''] [''U1'', ''U2'']
      [] 1000 [])"

definition correctedAnswer :: tracked_answer where
  "correctedAnswer = exampleAnswer\<lparr> a_status := ''corrected'', correctedAt := Some 2000,
      correctionInfo := Some ''owner reply'' \<rparr>"

section \<open>Text helpers\<close>

text \<open>
  A JavaScript string is a sequence of UTF-16 code units. A \<open>char\<close> is a code unit below
  256, so the strings of the model are the texts written in ASCII and Latin-1 (U+0000 to
  U+00FF); \<open>CHR 0xA0\<close> is the code unit U+00A0. On these \<open>toLowerCase\<close>, \<open>trim\<close> and
  the classes \<open>\s\<close>, \<open>\w\<close> of the regular expressions are the ones of the source: the
  no-break space U+00A0 is white space like blank, tab, line feed, vertical tab, form feed and
  carriage return; the letters U+00C0 to U+00DE (without the sign U+00D7) have their lower
  case 32 higher, like A to Z; \<open>\w\<close> is ASCII letters, digits and the underscore.
\<close>

definition is_space :: "char \<Rightarrow> bool" where
  "is_space c = (c \<in> set [CHR '' '', CHR 0x09, CHR 0x0A, CHR 0x0B, CHR 0x0C, CHR 0x0D, CHR 0xA0])"

definition upperAlpha :: string where
  "upperAlpha = ''ABCDEFGHIJKLMNOPQRSTUVWXYZ''"

definition lowerAlpha :: string where
  "lowerAlpha = ''abcdefghijklmnopqrstuvwxyz''"

definition upperLatin :: string where
  "upperLatin =
     [CHR 0xC0, CHR 0xC1, CHR 0xC2, CHR 0xC3, CHR 0xC4, CHR 0xC5, CHR 0xC6, CHR 0xC7,
      CHR 0xC8, CHR 0xC9, CHR 0xCA, CHR 0xCB, CHR 0xCC, CHR 0xCD, CHR 0xCE, CHR 0xCF,
      CHR 0xD0, CHR 0xD1, CHR 0xD2, CHR 0xD3, CHR 0xD4, CHR 0xD5, CHR 0xD6, CHR 0xD8,
      CHR 0xD9, CHR 0xDA, CHR 0xDB, CHR 0xDC, CHR 0xDD, CHR 0xDE]"

definition lowerLatin :: string where
  "lowerLatin =
     [CHR 0xE0, CHR 0xE1, CHR 0xE2, CHR 0xE3, CHR 0xE4, CHR 0xE5, CHR 0xE6, CHR 0xE7,
      CHR 0xE8, CHR 0xE9, CHR 0xEA, CHR 0xEB, CHR 0xEC, CHR 0xED, CHR 0xEE, CHR 0xEF,
      CHR 0xF0, CHR 0xF1, CHR 0xF2, CHR 0xF3, CHR 0xF4, CHR 0xF5, CHR 0xF6, CHR 0xF8,
      CHR 0xF9, CHR 0xFA, CHR 0xFB, CHR 0xFC, CHR 0xFD, CHR 0xFE]"

definition digitChars :: string where
  "digitChars = ''0123456789''"

definition toLowerChar :: "char \<Rightarrow> char" where
  "toLowerChar c =
     (case map_of (zip (upperAlpha @ upperLatin) (lowerAlpha @ lowerLatin)) c of
        None \<Rightarrow> c
      | Some d \<Rightarrow> d)"

definition toLowerCase :: "string \<Rightarrow> string" where
  "toLowerCase s = map toLowerChar s"

definition trim :: "string \<Rightarrow> string" where
  "trim s = rev (dropWhile is_space (rev (dropWhile is_space s)))"

definition is_word_char :: "char \<Rightarrow> bool" where
  "is_word_char c = (c \<in> set (upperAlpha @ lowerAlpha @ digitChars @ ''_''))"

definition is_hex :: "char \<Rightarrow> bool" where
  "is_hex c = (c \<in> set ''0123456789abcdefABCDEF'')"

text \<open>
  \<open>/^(w1|w2|...)\b/\<close> on a string: some alternative is a prefix and is followed by the
  end of the string or by a character outside \<open>\w\<close> (every alternative ends in a letter).
\<close>

definition startsWithWord :: "string list \<Rightarrow> string \<Rightarrow> bool" where
  "startsWithWord ws s =
     list_ex (\<lambda>w. take (length w) s = w \<and>
                  (case drop (length w) s of [] \<Rightarrow> True | c # _ \<Rightarrow> \<not> is_word_char c)) ws"

text \<open>
  \<open>/\b(w1|w2|...)\b/i.test(s)\<close>: an alternative occurs, whatever its case, after the start
  or a character outside \<open>\w\<close>, and before the end or a character outside \<open>\w\<close>.
  The first argument of \<open>containsWordFrom\<close> tells whether a match may start here.
\<close>

fun containsWordFrom :: "bool \<Rightarrow> string list \<Rightarrow> string \<Rightarrow> bool" where
  "containsWordFrom boundary ws [] = False"
| "containsWordFrom boundary ws (c # cs) =
     ((boundary \<and> startsWithWord ws (toLowerCase (c # cs))) \<or>
      containsWordFrom (\<not> is_word_char c) ws cs)"

definition containsWord :: "string list \<Rightarrow> string \<Rightarrow> bool" where
  "containsWord ws s = containsWordFrom True ws s"

section \<open>Page identifiers (notion.js, extractPageId)\<close>

definition removeDashes :: "string \<Rightarrow> string" where
  "removeDashes s = filter (\<lambda>c. c \<noteq> CHR ''-'') s"

text \<open>A string starts with \<open>n\<close> hexadecimal digits.\<close>

definition hexRun :: "nat \<Rightarrow> string \<Rightarrow> bool" where
  "hexRun n s = (n \<le> length s \<and> list_all is_hex (take n s))"

text \<open>A string starts with \<open>[a-f0-9]{8}-[a-f0-9]{4}-[a-f0-9]{4}-[a-f0-9]{4}-[a-f0-9]{12}\<close>.\<close>

definition uuidAt :: "string \<Rightarrow> bool" where
  "uuidAt s =
     (36 \<le> length s \<and>
      list_all is_hex (take 8 s) \<and> s ! 8 = CHR ''-'' \<and>
      list_all is_hex (take 4 (drop 9 s)) \<and> s ! 13 = CHR ''-'' \<and>
      list_all is_hex (take 4 (drop 14 s)) \<and> s ! 18 = CHR ''-'' \<and>
      list_all is_hex (take 4 (drop 19 s)) \<and> s ! 23 = CHR ''-'' \<and>
      list_all is_hex (take 12 (drop 24 s)))"

text \<open>\<open>/([a-f0-9]{32})(?:\?|$)/i\<close>: the leftmost run of 32 digits followed by \<open>?\<close> or the end.\<close>

fun findHex32End :: "string \<Rightarrow> string option" where
  "findHex32End [] = None"
| "findHex32End (c # cs) =
     (if hexRun 32 (c # cs) \<and>
         (case drop 32 (c # cs) of [] \<Rightarrow> True | d # _ \<Rightarrow> d = CHR ''?'')
      then Some (take 32 (c # cs))
      else findHex32End cs)"

fun findUuid :: "string \<Rightarrow> string option" where
  "findUuid [] = None"
| "findUuid (c # cs) = (if uuidAt (c # cs) then Some (take 36 (c # cs)) else findUuid cs)"

text \<open>\<open>/-([a-f0-9]{32})(?:\?|$)/i\<close>\<close>

fun findDashHex32End :: "string \<Rightarrow> string option" where
  "findDashHex32End [] = None"
| "findDashHex32End (c # cs) =
     (if c = CHR ''-'' \<and> hexRun 32 cs \<and>
         (case drop 32 cs of [] \<Rightarrow> True | d # _ \<Rightarrow> d = CHR ''?'')
      then Some (take 32 cs)
      else findDashHex32End cs)"

definition extractPageId :: "string \<Rightarrow> string option" where
  "extractPageId urlOrId =
     (if urlOrId = [] then None
      else let str = trim urlOrId in
        if length str = 32 \<and> hexRun 32 str then Some str
        else if length str = 36 \<and> uuidAt str then Some (removeDashes str)
        else (case findHex32End str of
                Some m \<Rightarrow> Some m
              | None \<Rightarrow>
                 (case findUuid str of
                    Some m \<Rightarrow> Some (removeDashes m)
                  | None \<Rightarrow> findDashHex32End str)))"

section \<open>Deduplication of events (slack-helpers.js, alreadySeen)\<close>

definition alreadySeen :: "string \<Rightarrow> int \<Rightarrow> int \<Rightarrow> (string \<rightharpoonup> int) \<Rightarrow> bool \<times> (string \<rightharpoonup> int)" where
  "alreadySeen key ttlMs now seen =
     (let pruned = (\<lambda>k. case seen k of
                          None \<Rightarrow> None
                        | Some ts \<Rightarrow> if now - ts > ttlMs then None else Some ts)
      in (case pruned key of
            Some ts \<Rightarrow> (True, pruned)
          | None \<Rightarrow> (False, pruned(key \<mapsto> now))))"

section \<open>Pending direct-message actions (dm-handler.js)\<close>

text \<open>
  A pending action is the object \<open>{intent, partialData, expiresAt}\<close>. The intent and the
  payload that goes with it form one tagged value: \<open>add_knowledge_area\<close> with the fields
  collected so far, \<open>faq_correction_approval\<close> with the correction, or any other intent.
\<close>

record area_data =
  ad_name :: string
  ad_description :: string
  ad_keywords :: "string list"
  ad_leadUserIds :: "string list"
  ad_leadNames :: "string list"

record correction_data =
  correctionId :: string
  blockId :: "string option"
  blockUrl :: "string option"
  notionPageId :: "string option"
  subPageId :: "string option"
  suggestedUpdate :: string
  originalQuestion :: string
  areaName :: string
  channelName :: "string option"

datatype pending_intent =
    AddKnowledgeArea area_data
  | FaqCorrectionApproval correction_data
  | OtherIntent string

record pending_dm =
  action :: pending_intent
  expiresAt :: int

text \<open>
  The module state: the map \<open>pendingDmActions\<close>, the set \<open>processedCorrections\<close>, and the
  \<open>seen\<close> map of \<open>alreadySeen\<close>.
\<close>

record dm_state =
  pendingDmActions :: "string \<rightharpoonup> pending_dm"
  processedCorrections :: "string set"
  seen :: "string \<rightharpoonup> int"

definition PENDING_DM_EXPIRY_MS :: int where
  "PENDING_DM_EXPIRY_MS = 10 * 60 * 1000"

definition getPendingDm :: "string \<Rightarrow> int \<Rightarrow> dm_state \<Rightarrow> pending_dm option \<times> dm_state" where
  "getPendingDm userId now s =
     (case pendingDmActions s userId of
        None \<Rightarrow> (None, s)
      | Some pending \<Rightarrow>
          if now > expiresAt pending
          then (None, s\<lparr> pendingDmActions := (pendingDmActions s)(userId := None) \<rparr>)
          else (Some pending, s))"

definition setPendingDm :: "string \<Rightarrow> pending_intent \<Rightarrow> int \<Rightarrow> dm_state \<Rightarrow> dm_state" where
  "setPendingDm userId data now s =
     s\<lparr> pendingDmActions := (pendingDmActions s)
           (userId \<mapsto> \<lparr> action = data, expiresAt = now + PENDING_DM_EXPIRY_MS \<rparr>) \<rparr>"

definition clearPendingDm :: "string \<Rightarrow> dm_state \<Rightarrow> dm_state" where
  "clearPendingDm userId s = s\<lparr> pendingDmActions := (pendingDmActions s)(userId := None) \<rparr>"

text \<open>
  \<open>pending.intent === "faq_correction_approval" && pending.partialData?.correctionId === correctionId\<close>
\<close>

definition refersTo :: "string \<Rightarrow> pending_dm \<Rightarrow> bool" where
  "refersTo cid pending =
     (case action pending of
        FaqCorrectionApproval d \<Rightarrow> correctionId d = cid
      | _ \<Rightarrow> False)"

definition clearPendingDmsForCorrection :: "string \<Rightarrow> dm_state \<Rightarrow> dm_state" where
  "clearPendingDmsForCorrection cid s =
     s\<lparr> pendingDmActions :=
           (\<lambda>userId. case pendingDmActions s userId of
                        None \<Rightarrow> None
                      | Some pending \<Rightarrow> if refersTo cid pending then None else Some pending) \<rparr>"

text \<open>
  \<open>loadPendingDms\<close> at start-up: the entries of the file whose expiry is still ahead.
\<close>

definition loadPendingDms :: "(string \<times> pending_dm) list \<Rightarrow> int \<Rightarrow> dm_state \<Rightarrow> dm_state" where
  "loadPendingDms entries now s =
     s\<lparr> pendingDmActions :=
           foldl (\<lambda>m (userId, entry). if expiresAt entry > now then m(userId \<mapsto> entry) else m)
                 (pendingDmActions s) entries \<rparr>"

section \<open>The conversation handler (dm-handler.js)\<close>

text \<open>
  The messages the handler posts, by kind; the text of each is in the source.
\<close>

datatype reply =
    AlreadyApplied
  | CannotAutoUpdate
  | UpdateDone string string
  | UpdateError string
  | RejectionNoted
  | RevisionEmpty
  | RevisedVersion string
  | RevisionError
  | Cancelled
  | NeedUrl
  | InvalidUrl
  | AreaCreated string
  | OnlyLeads
  | NeedName
  | AreaExists string
  | AskUrl string
  | IntentReply string
  | ProcessingError

text \<open>
  What a handler does to its collaborators, in order. \<open>UpdateFaqBlock c b t ok\<close> is a call
  \<open>updateFaqBlock(b, t)\<close> made for correction \<open>c\<close>; \<open>ok\<close> tells whether it returned.
\<close>

datatype effect =
    PostMessage string reply
  | UpdateFaqBlock string string string bool
  | CacheDelete "string option"
  | AddCommentToBlock string bool
  | AddKnowledgeAreaCall string string "string list" bool

text \<open>
  What \<open>parseDmIntent\<close> found in a message that continues nothing. For
  \<open>add_knowledge_area\<close> the fields are: whether the sender leads an area, the name, whether
  an area of that name exists, the page URL, the description, the keywords, the leads
  mentioned and the leads named.
\<close>

datatype parsed_intent =
    ViewRoster
  | ModifyRoster
  | AddArea bool "string option" bool "string option" string "string list" "string list" "string list"
  | SelfRegistration
  | General

text \<open>
  The answers of the collaborators while one message is handled: a call either throws
  (\<open>Inl\<close> with the message of the error) or returns. \<open>storeTime\<close> is \<open>Date.now()\<close> at
  the moment the handler stores a pending action, after it has waited for the model.
  Posting a message is taken to succeed.
\<close>

record upstream =
  updateFaqBlockResult :: "string + string"
  addCommentToBlockOk :: bool
  reviseSuggestedUpdateResult :: "string + string option"
  storeTime :: int
  resolveUsersByNameResult :: "string list"
  addKnowledgeAreaResult :: "string + string"
  parseDmIntentResult :: "string + parsed_intent"
  rosterHandlerThrows :: bool

definition approvalWords :: "string list" where
  "approvalWords = [''yes'', ''yep'', ''yeah'', ''yea'', ''sure'', ''approved'', ''lgtm'',
     ''go for it'', ''do it'', ''go ahead'', ''ship it'', ''looks good'', ''ok'', ''okay'']"

definition rejectionWords :: "string list" where
  "rejectionWords = [''no'', ''nope'', ''cancel'', ''nevermind'', ''never mind'',
     ''don't update'', ''stop'', ''reject'', ''skip'']"

definition cancelWords :: "string list" where
  "cancelWords = [''cancel'', ''nevermind'', ''never mind'', ''stop'', ''abort'']"

definition isApproval :: "string \<Rightarrow> bool" where
  "isApproval lower = startsWithWord approvalWords lower"

definition isRejection :: "string \<Rightarrow> bool" where
  "isRejection lower = startsWithWord rejectionWords lower"

text \<open>\<open>text.match(/https?:\/\/[^\s>]+|[a-f0-9]{32}/i)\<close>: the leftmost match.\<close>

definition matchHttpUrl :: "string \<Rightarrow> string option" where
  "matchHttpUrl s =
     (let n = (if toLowerCase (take 8 s) = ''https://'' then 8
               else if toLowerCase (take 7 s) = ''http://'' then 7 else 0);
          rest = takeWhile (\<lambda>c. \<not> is_space c \<and> c \<noteq> CHR ''>'') (drop n s)
      in if n = 0 \<or> rest = [] then None else Some (take n s @ rest))"

fun urlMatch :: "string \<Rightarrow> string option" where
  "urlMatch [] = None"
| "urlMatch (c # cs) =
     (case matchHttpUrl (c # cs) of
        Some m \<Rightarrow> Some m
      | None \<Rightarrow> if hexRun 32 (c # cs) then Some (take 32 (c # cs)) else urlMatch cs)"

text \<open>A string that JavaScript takes as true: present and not empty.\<close>

definition truthy :: "string option \<Rightarrow> bool" where
  "truthy v = (case v of None \<Rightarrow> False | Some x \<Rightarrow> x \<noteq> [])"

text \<open>
  A handler returns the state, what it did, and the exception that leaves it, if any.
\<close>

type_synonym handled = "dm_state \<times> effect list \<times> string option"

text \<open>
  The branch of \<open>continuePendingDm\<close> for \<open>faq_correction_approval\<close> once the user has
  approved and a block is known: the \<open>try\<close> block around \<open>updateFaqBlock\<close> and its
  \<open>catch\<close>. A failing \<open>addCommentToBlock\<close> is caught inside and changes nothing.
\<close>

definition applyCorrection ::
  "string \<Rightarrow> string \<Rightarrow> correction_data \<Rightarrow> string \<Rightarrow> upstream \<Rightarrow> dm_state \<Rightarrow> handled" where
  "applyCorrection userId channel d b up s =
     (case updateFaqBlockResult up of
        Inr url \<Rightarrow>
          (clearPendingDmsForCorrection (correctionId d)
             (clearPendingDm userId
                (s\<lparr> processedCorrections := insert (correctionId d) (processedCorrections s) \<rparr>)),
           [UpdateFaqBlock (correctionId d) b (suggestedUpdate d) True,
            CacheDelete (notionPageId d)] @
           (if truthy (subPageId d) \<and> subPageId d \<noteq> notionPageId d
            then [CacheDelete (subPageId d)] else []) @
           [AddCommentToBlock b (addCommentToBlockOk up),
            PostMessage channel (UpdateDone (areaName d) url)],
           None)
      | Inl err \<Rightarrow>
          (clearPendingDm userId s,
           [UpdateFaqBlock (correctionId d) b (suggestedUpdate d) False,
            PostMessage channel (UpdateError err)],
           None))"

text \<open>
  An approval without a block to update: the sender's pending action and every pending action
  for the same correction are cleared.
\<close>

definition cannotAutoUpdate :: "string \<Rightarrow> string \<Rightarrow> correction_data \<Rightarrow> dm_state \<Rightarrow> handled" where
  "cannotAutoUpdate userId channel d s =
     (clearPendingDmsForCorrection (correctionId d) (clearPendingDm userId s),
      [PostMessage channel CannotAutoUpdate], None)"

text \<open>Anything that is neither approval nor rejection is feedback for a revision.\<close>

definition reviseCorrection ::
  "string \<Rightarrow> string \<Rightarrow> correction_data \<Rightarrow> upstream \<Rightarrow> dm_state \<Rightarrow> handled" where
  "reviseCorrection userId channel d up s =
     (case reviseSuggestedUpdateResult up of
        Inl err \<Rightarrow> (s, [PostMessage channel RevisionError], None)
      | Inr None \<Rightarrow> (s, [PostMessage channel RevisionEmpty], None)
      | Inr (Some revised) \<Rightarrow>
          if revised = [] then (s, [PostMessage channel RevisionEmpty], None)
          else (setPendingDm userId (FaqCorrectionApproval (d\<lparr> suggestedUpdate := revised \<rparr>))
                  (storeTime up) s,
                [PostMessage channel (RevisedVersion revised)], None))"

definition continueCorrection ::
  "string \<Rightarrow> string \<Rightarrow> string \<Rightarrow> correction_data \<Rightarrow> upstream \<Rightarrow> dm_state \<Rightarrow> handled" where
  "continueCorrection userId channel text d up s =
     (if correctionId d \<in> processedCorrections s
      then (clearPendingDm userId s, [PostMessage channel AlreadyApplied], None)
      else let lower = trim (toLowerCase text) in
        if isApproval lower then
          (case blockId d of
             None \<Rightarrow> cannotAutoUpdate userId channel d s
           | Some b \<Rightarrow>
               if b = [] then cannotAutoUpdate userId channel d s
               else applyCorrection userId channel d b up s)
        else if isRejection lower then
          (clearPendingDm userId s, [PostMessage channel RejectionNoted], None)
        else reviseCorrection userId channel d up s)"

text \<open>
  The branch for \<open>add_knowledge_area\<close>. \<open>addKnowledgeArea\<close> runs after the pending action
  has been cleared; when it throws, the exception leaves \<open>continuePendingDm\<close>.
\<close>

definition continueAddArea ::
  "string \<Rightarrow> string \<Rightarrow> string \<Rightarrow> area_data \<Rightarrow> upstream \<Rightarrow> dm_state \<Rightarrow> handled" where
  "continueAddArea userId channel text d up s =
     (case urlMatch text of
        None \<Rightarrow>
          if containsWord cancelWords text
          then (clearPendingDm userId s, [PostMessage channel Cancelled], None)
          else (s, [PostMessage channel NeedUrl], None)
      | Some notionUrl \<Rightarrow>
          if extractPageId notionUrl = None then (s, [PostMessage channel InvalidUrl], None)
          else
            (let leadUserIds = (if ad_leadUserIds d = [] \<and> ad_leadNames d \<noteq> []
                                then resolveUsersByNameResult up else ad_leadUserIds d)
             in case addKnowledgeAreaResult up of
                  Inl err \<Rightarrow>
                    (clearPendingDm userId s,
                     [AddKnowledgeAreaCall (ad_name d) notionUrl leadUserIds False], Some err)
                | Inr areaId \<Rightarrow>
                    (clearPendingDm userId s,
                     [AddKnowledgeAreaCall (ad_name d) notionUrl leadUserIds True,
                      PostMessage channel (AreaCreated areaId)], None)))"

definition continuePendingDm ::
  "string \<Rightarrow> string \<Rightarrow> string \<Rightarrow> pending_dm \<Rightarrow> upstream \<Rightarrow> dm_state \<Rightarrow> handled" where
  "continuePendingDm userId channel text pending up s =
     (case action pending of
        AddKnowledgeArea d \<Rightarrow> continueAddArea userId channel text d up s
      | FaqCorrectionApproval d \<Rightarrow> continueCorrection userId channel text d up s
      | OtherIntent name \<Rightarrow> (clearPendingDm userId s, [], None))"

text \<open>
  \<open>handleDmAddKnowledgeArea\<close>, for a message that continues nothing.
\<close>

definition handleDmAddKnowledgeArea ::
  "string \<Rightarrow> string \<Rightarrow> parsed_intent \<Rightarrow> upstream \<Rightarrow> dm_state \<Rightarrow> handled" where
  "handleDmAddKnowledgeArea userId channel parsed up s =
     (case parsed of
        AddArea senderIsLead areaNameOpt nameExists urlOpt description keywords leadMentions leadNames \<Rightarrow>
          (let name = (case areaNameOpt of None \<Rightarrow> [] | Some n \<Rightarrow> trim n);
               notionUrl = (case urlOpt of None \<Rightarrow> [] | Some u \<Rightarrow> trim u);
               partial = AddKnowledgeArea \<lparr> ad_name = name, ad_description = trim description,
                           ad_keywords = filter (\<lambda>k. k \<noteq> []) keywords,
                           ad_leadUserIds = leadMentions, ad_leadNames = leadNames \<rparr>
           in if \<not> senderIsLead then (s, [PostMessage channel OnlyLeads], None)
              else if name = [] then (s, [PostMessage channel NeedName], None)
              else if nameExists then (s, [PostMessage channel (AreaExists name)], None)
              else if notionUrl = []
              then (setPendingDm userId partial (storeTime up) s,
                    [PostMessage channel (AskUrl name)], None)
              else if extractPageId notionUrl = None
              then (setPendingDm userId partial (storeTime up) s,
                    [PostMessage channel InvalidUrl], None)
              else
                (let leadUserIds = (if leadMentions = [] \<and> leadNames \<noteq> []
                                    then resolveUsersByNameResult up else leadMentions)
                 in case addKnowledgeAreaResult up of
                      Inl err \<Rightarrow>
                        (s, [AddKnowledgeAreaCall name notionUrl leadUserIds False], Some err)
                    | Inr areaId \<Rightarrow>
                        (s, [AddKnowledgeAreaCall name notionUrl leadUserIds True,
                             PostMessage channel (AreaCreated areaId)], None)))
      | _ \<Rightarrow> (s, [], None))"

text \<open>
  The other intents read or change the roster of the knowledge areas and post one message;
  they touch neither the pending actions nor the applied corrections. A failure inside
  them leaves the handler as an exception.
\<close>

definition handleParsedIntent ::
  "string \<Rightarrow> string \<Rightarrow> parsed_intent \<Rightarrow> upstream \<Rightarrow> dm_state \<Rightarrow> handled" where
  "handleParsedIntent userId channel parsed up s =
     (case parsed of
        AddArea a b c d e f g h \<Rightarrow> handleDmAddKnowledgeArea userId channel parsed up s
      | ViewRoster \<Rightarrow>
          if rosterHandlerThrows up then (s, [], Some ''roster'')
          else (s, [PostMessage channel (IntentReply ''view_roster'')], None)
      | ModifyRoster \<Rightarrow>
          if rosterHandlerThrows up then (s, [], Some ''roster'')
          else (s, [PostMessage channel (IntentReply ''modify_roster'')], None)
      | SelfRegistration \<Rightarrow>
          if rosterHandlerThrows up then (s, [], Some ''roster'')
          else (s, [PostMessage channel (IntentReply ''self_registration'')], None)
      | General \<Rightarrow> (s, [PostMessage channel (IntentReply ''general'')], None))"

record dm_event =
  channel_type :: string
  subtype :: "string option"
  bot_id :: "string option"
  ev_user :: string
  ev_channel :: string
  ev_ts :: string
  ev_text :: "string option"

definition dedupeTtlMs :: int where
  "dedupeTtlMs = 5 * 60 * 1000"

text \<open>
  The listener that \<open>registerDmHandler\<close> installs, in four parts: the events it ignores,
  the text it reads, the handler it picks, and its outer \<open>catch\<close>, which turns an exception
  of a handler into the message \<open>ProcessingError\<close> and keeps the state the handler left.
\<close>

definition ignoresEvent :: "string option \<Rightarrow> dm_event \<Rightarrow> bool" where
  "ignoresEvent botUserId event =
     (channel_type event \<noteq> ''im'' \<or> truthy (subtype event) \<or> truthy (bot_id event) \<or>
      (truthy botUserId \<and> Some (ev_user event) = botUserId))"

definition eventText :: "dm_event \<Rightarrow> string" where
  "eventText event = trim (case ev_text event of None \<Rightarrow> [] | Some t \<Rightarrow> t)"

definition dispatchDm ::
  "string \<Rightarrow> string \<Rightarrow> string \<Rightarrow> pending_dm option \<Rightarrow> upstream \<Rightarrow> dm_state \<Rightarrow> handled" where
  "dispatchDm userId channel text pendingOpt up s =
     (case pendingOpt of
        Some pending \<Rightarrow> continuePendingDm userId channel text pending up s
      | None \<Rightarrow>
          (case parseDmIntentResult up of
             Inl err \<Rightarrow> (s, [], Some err)
           | Inr parsed \<Rightarrow> handleParsedIntent userId channel parsed up s))"

definition reportThrown :: "string \<Rightarrow> handled \<Rightarrow> dm_state \<times> effect list" where
  "reportThrown channel h =
     (case h of
        (s, effects, None) \<Rightarrow> (s, effects)
      | (s, effects, Some err) \<Rightarrow> (s, effects @ [PostMessage channel ProcessingError]))"

definition dedupeKey :: "dm_event \<Rightarrow> string" where
  "dedupeKey event = ''dm:'' @ ev_channel event @ '':'' @ ev_ts event"

definition handleDm ::
  "string option \<Rightarrow> dm_event \<Rightarrow> upstream \<Rightarrow> int \<Rightarrow> dm_state \<Rightarrow> dm_state \<times> effect list" where
  "handleDm botUserId event up now s =
     (if ignoresEvent botUserId event then (s, [])
      else if eventText event = [] then (s, [])
      else
        (case alreadySeen (dedupeKey event) dedupeTtlMs now (seen s) of
           (dup, seen1) \<Rightarrow>
             if dup then (s\<lparr> seen := seen1 \<rparr>, [])
             else
               (case getPendingDm (ev_user event) now (s\<lparr> seen := seen1 \<rparr>) of
                  (pendingOpt, s1) \<Rightarrow>
                    reportThrown (ev_channel event)
                      (dispatchDm (ev_user event) (ev_channel event) (eventText event)
                         pendingOpt up s1))))"

section \<open>Runs of the conversation handler\<close>

text \<open>
  What reaches the module, one at a time: a direct message (with the answers of the
  collaborators and the time), or a call of the exported \<open>setPendingDm\<close> by the periodic job.
  A run returns the final state and everything that was done. In these runs the handler of a
  message has finished before the next step begins; handlers that overlap are the subject of
  the section on handlers in flight.
\<close>

datatype dm_step =
    DirectMessage "string option" dm_event upstream int
  | SetPendingDm string pending_intent int

fun dm_apply :: "dm_step \<Rightarrow> dm_state \<Rightarrow> dm_state \<times> effect list" where
  "dm_apply (DirectMessage botUserId event up now) s = handleDm botUserId event up now s"
| "dm_apply (SetPendingDm userId data now) s = (setPendingDm userId data now s, [])"

fun dm_run :: "dm_step list \<Rightarrow> dm_state \<Rightarrow> dm_state \<times> effect list" where
  "dm_run [] s = (s, [])"
| "dm_run (step # steps) s =
     (case dm_apply step s of
        (s1, effects1) \<Rightarrow> (case dm_run steps s1 of (s2, effects2) \<Rightarrow> (s2, effects1 @ effects2)))"

text \<open>The successful document updates made for a correction.\<close>

definition isAppliedFor :: "string \<Rightarrow> effect \<Rightarrow> bool" where
  "isAppliedFor cid e = (case e of UpdateFaqBlock c b t ok \<Rightarrow> c = cid \<and> ok | _ \<Rightarrow> False)"

definition appliedCount :: "string \<Rightarrow> effect list \<Rightarrow> nat" where
  "appliedCount cid effects = length (filter (isAppliedFor cid) effects)"

text \<open>
  What one handler may do about the applied corrections: the set only grows, a correction is
  updated at most once and not at all when it is already marked, an update marks it, and the
  set changes only by gaining a correction that has just been updated.
\<close>

definition step_ok :: "string \<Rightarrow> dm_state \<Rightarrow> dm_state \<Rightarrow> effect list \<Rightarrow> bool" where
  "step_ok c s s' effects =
     (processedCorrections s \<subseteq> processedCorrections s' \<and>
      appliedCount c effects \<le> (if c \<in> processedCorrections s then 0 else 1) \<and>
      (0 < appliedCount c effects \<longrightarrow> c \<in> processedCorrections s') \<and>
      (processedCorrections s' \<noteq> processedCorrections s \<longrightarrow>
         (\<exists>c'. processedCorrections s' = insert c' (processedCorrections s) \<and> 0 < appliedCount c' effects)))"

section \<open>Example conversations\<close>

definition exampleCorrection :: correction_data where
  "exampleCorrection =
     \<lparr> correctionId = ''ans_1'', blockId = Some ''b1'', blockUrl = Some ''u1'',
       notionPageId = Some ''p1'', subPageId = None,
       suggestedUpdate = ''Refunds take 7 days.'', originalQuestion = ''How do refunds work?'',
       areaName = ''Billing'', channelName = Some ''help'' \<rparr>"

definition examplePending :: pending_dm where
  "examplePending = \<lparr> action = FaqCorrectionApproval exampleCorrection, expiresAt = 700000 \<rparr>"

definition exampleDmState :: dm_state where
  "exampleDmState =
     \<lparr> pendingDmActions = [''U1'' \<mapsto> examplePending, ''U2'' \<mapsto> examplePending],
       processedCorrections = {}, seen = Map.empty \<rparr>"

definition upstreamOk :: upstream where
  "upstreamOk =
     \<lparr> updateFaqBlockResult = Inr ''https://notion.so/b1'', addCommentToBlockOk = True,
       reviseSuggestedUpdateResult = Inr (Some ''Refunds take 10 days.''), storeTime = 200500,
       resolveUsersByNameResult = [], addKnowledgeAreaResult = Inr ''area_1'',
       parseDmIntentResult = Inr General, rosterHandlerThrows = False \<rparr>"

definition upstreamFailing :: upstream where
  "upstreamFailing =
     \<lparr> updateFaqBlockResult = Inl ''timeout'', addCommentToBlockOk = False,
       reviseSuggestedUpdateResult = Inl ''overloaded'', storeTime = 200500,
       resolveUsersByNameResult = [], addKnowledgeAreaResult = Inl ''disk'',
       parseDmIntentResult = Inl ''overloaded'', rosterHandlerThrows = True \<rparr>"

definition exampleEvent :: "string \<Rightarrow> string \<Rightarrow> string \<Rightarrow> dm_event" where
  "exampleEvent userId ts txt =
     \<lparr> channel_type = ''im'', subtype = None, bot_id = None, ev_user = userId,
       ev_channel = ''D'' @ userId, ev_ts = ts, ev_text = Some txt \<rparr>"

definition exampleSteps :: "dm_step list" where
  "exampleSteps =
     [DirectMessage None (exampleEvent ''U1'' ''1.0'' ''Yes'') upstreamOk 100000,
      SetPendingDm ''U2'' (FaqCorrectionApproval exampleCorrection) 100200,
      DirectMessage None (exampleEvent ''U2'' ''2.0'' ''Yes'') upstreamOk 100500]"

section \<open>Handlers in flight\<close>

text \<open>
  The listener is an \<open>async\<close> function: it runs until it awaits a call that has not
  settled, and goes on when the call settles; in between, the listener may start for other
  messages. \<open>handleDm\<close> and \<open>dm_run\<close> above describe the runs in which every handler has
  finished before the next message arrives. This section follows the approval of a correction
  through its awaits. After the set of applied corrections has been read and the update has
  been decided, the handler waits for \<open>updateFaqBlock\<close>; when that has returned, for
  \<open>addCommentToBlock\<close>, and only then marks the correction and clears the pending actions;
  when \<open>updateFaqBlock\<close> has thrown, it waits for the error message to be posted and then
  clears the pending action of the user. What a waiting handler goes on with is the data it
  read from the pending action when it started.
\<close>

datatype suspended =
    AwaitUpdate string string correction_data string
  | AwaitComment string string correction_data string string
  | AwaitErrorPost string

text \<open>
  The listener up to the call of \<open>updateFaqBlock\<close>: the state it leaves and the handler
  that waits, when the message is an approval that gets as far as this call.
\<close>

definition approvalStarts ::
  "string option \<Rightarrow> dm_event \<Rightarrow> int \<Rightarrow> dm_state \<Rightarrow> (dm_state \<times> suspended) option" where
  "approvalStarts botUserId event now s =
     (if ignoresEvent botUserId event then None
      else if eventText event = [] then None
      else
        (case alreadySeen (dedupeKey event) dedupeTtlMs now (seen s) of
           (dup, seen1) \<Rightarrow>
             if dup then None
             else
               (case getPendingDm (ev_user event) now (s\<lparr> seen := seen1 \<rparr>) of
                  (None, s1) \<Rightarrow> None
                | (Some pending, s1) \<Rightarrow>
                    (case action pending of
                       FaqCorrectionApproval d \<Rightarrow>
                         if correctionId d \<in> processedCorrections s1 then None
                         else if isApproval (trim (toLowerCase (eventText event)))
                         then (case blockId d of
                                 None \<Rightarrow> None
                               | Some b \<Rightarrow>
                                   if b = [] then None
                                   else Some (s1, AwaitUpdate (ev_user event) (ev_channel event) d b))
                         else None
                     | _ \<Rightarrow> None))))"

text \<open>
  A waiting handler goes on when the call it waits for has settled, up to its next await or
  its end.
\<close>

fun resume :: "suspended \<Rightarrow> upstream \<Rightarrow> dm_state \<Rightarrow> dm_state \<times> effect list \<times> suspended option" where
  "resume (AwaitUpdate userId channel d b) up s =
     (case updateFaqBlockResult up of
        Inr url \<Rightarrow>
          (s,
           [UpdateFaqBlock (correctionId d) b (suggestedUpdate d) True,
            CacheDelete (notionPageId d)] @
           (if truthy (subPageId d) \<and> subPageId d \<noteq> notionPageId d
            then [CacheDelete (subPageId d)] else []),
           Some (AwaitComment userId channel d b url))
      | Inl err \<Rightarrow>
          (s,
           [UpdateFaqBlock (correctionId d) b (suggestedUpdate d) False,
            PostMessage channel (UpdateError err)],
           Some (AwaitErrorPost userId)))"
| "resume (AwaitComment userId channel d b url) up s =
     (clearPendingDmsForCorrection (correctionId d)
        (clearPendingDm userId
           (s\<lparr> processedCorrections := insert (correctionId d) (processedCorrections s) \<rparr>)),
      [AddCommentToBlock b (addCommentToBlockOk up),
       PostMessage channel (UpdateDone (areaName d) url)],
      None)"
| "resume (AwaitErrorPost userId) up s = (clearPendingDm userId s, [], None)"

text \<open>A waiting handler that is not interrupted: every call settles at once.\<close>

definition runToEnd :: "suspended \<Rightarrow> upstream \<Rightarrow> dm_state \<Rightarrow> dm_state \<times> effect list" where
  "runToEnd k up s =
     (case resume k up s of
        (s1, effects1, None) \<Rightarrow> (s1, effects1)
      | (s1, effects1, Some k1) \<Rightarrow>
          (case resume k1 up s1 of (s2, effects2, rest) \<Rightarrow> (s2, effects1 @ effects2)))"

text \<open>
  What happens to the module, one at a time: a message arrives and its handler runs until it
  waits for \<open>updateFaqBlock\<close> (or to its end when it does not get there); the call that the
  \<open>n\<close>-th waiting handler waits for settles; the periodic job stores a pending action.
  The state of a run is the module state and the handlers that wait.
\<close>

datatype sched_step =
    Arrives "string option" dm_event upstream int
  | Settles nat upstream
  | Stores string pending_intent int

fun sched_apply ::
  "sched_step \<Rightarrow> dm_state \<times> suspended list \<Rightarrow> (dm_state \<times> suspended list) \<times> effect list" where
  "sched_apply (Arrives botUserId event up now) (s, waiting) =
     (case approvalStarts botUserId event now s of
        Some (s1, k) \<Rightarrow> ((s1, waiting @ [k]), [])
      | None \<Rightarrow> (case handleDm botUserId event up now s of (s1, effects) \<Rightarrow> ((s1, waiting), effects)))"
| "sched_apply (Settles n up) (s, waiting) =
     (if n < length waiting
      then (case resume (waiting ! n) up s of
              (s1, effects, None) \<Rightarrow> ((s1, take n waiting @ drop (Suc n) waiting), effects)
            | (s1, effects, Some k) \<Rightarrow> ((s1, waiting[n := k]), effects))
      else ((s, waiting), []))"
| "sched_apply (Stores userId data now) (s, waiting) = ((setPendingDm userId data now s, waiting), [])"

fun sched_run ::
  "sched_step list \<Rightarrow> dm_state \<times> suspended list \<Rightarrow> (dm_state \<times> suspended list) \<times> effect list" where
  "sched_run [] st = (st, [])"
| "sched_run (step # steps) st =
     (case sched_apply step st of
        (st1, effects1) \<Rightarrow>
          (case sched_run steps st1 of (st2, effects2) \<Rightarrow> (st2, effects1 @ effects2)))"

text \<open>
  Two approvers of the same correction answer before the update of the first has returned:
  U1 answers, U2 answers, then the calls that U1 waits for settle, then those of U2.
\<close>

definition concurrentApprovals :: "sched_step list" where
  "concurrentApprovals =
     [Arrives None (exampleEvent ''U1'' ''1.0'' ''Yes'') upstreamOk 100000,
      Arrives None (exampleEvent ''U2'' ''2.0'' ''Yes'') upstreamOk 100100,
      Settles 0 upstreamOk,
      Settles 0 upstreamOk,
      Settles 0 upstreamOk,
      Settles 0 upstreamOk]"




section \<open>Finding a block by its content (notion.js)\<close>

text \<open>
  A block as the Notion API lists it: identifier, type, the plain text that
  \<open>getBlockText\<close> joins from its rich text (empty when the block has none), the flag
  \<open>has_children\<close>, and what listing its children gives: the child blocks, or an error when
  \<open>kidsListed\<close> is false. Pages of the listing are gathered before the search and are
  one list here.
\<close>

datatype block =
  Block (b_id: string) (b_type: string) (b_text: string) (has_children: bool)
        (kidsListed: bool) (kids: "block list")

text \<open>\<open>normalizeText\<close>: lower case, every run of white space one blank, trimmed.\<close>

fun collapseSpaces :: "bool \<Rightarrow> string \<Rightarrow> string" where
  "collapseSpaces inRun [] = []"
| "collapseSpaces inRun (c # cs) =
     (if is_space c
      then (if inRun then collapseSpaces True cs else CHR '' '' # collapseSpaces True cs)
      else c # collapseSpaces False cs)"

definition normalizeText :: "string \<Rightarrow> string" where
  "normalizeText s = trim (collapseSpaces False (toLowerCase s))"

text \<open>\<open>hay.includes(needle)\<close>\<close>

fun includesText :: "string \<Rightarrow> string \<Rightarrow> bool" where
  "includesText [] needle = (needle = [])"
| "includesText (c # cs) needle = (take (length needle) (c # cs) = needle \<or> includesText cs needle)"

text \<open>
  The candidate \<open>bestMatch\<close> with its score. The scores are the quotients the source
  computes, taken exactly; \<open>searchText\<close> is absent on a candidate that comes from the
  children, whose result carries none.
\<close>

record block_match =
  m_blockId :: string
  m_blockType :: string
  m_matchedText :: string
  m_searchText :: "string option"

type_synonym best = "block_match option \<times> rat"

text \<open>
  The body of the inner loop, for one block and one normalized search text, and the loop.
\<close>

definition considerText :: "string \<Rightarrow> string \<Rightarrow> string \<Rightarrow> string \<Rightarrow> string \<Rightarrow> best \<Rightarrow> best" where
  "considerText bid ty blockText normalizedBlockText searchText acc =
     (if includesText normalizedBlockText searchText
      then (let score = of_nat (length searchText) / of_nat (length normalizedBlockText)
            in if score > snd acc
               then (Some \<lparr> m_blockId = bid, m_blockType = ty, m_matchedText = blockText,
                             m_searchText = Some searchText \<rparr>, score)
               else acc)
      else acc)"

fun matchTexts :: "string \<Rightarrow> string \<Rightarrow> string \<Rightarrow> string \<Rightarrow> string list \<Rightarrow> best \<Rightarrow> best" where
  "matchTexts bid ty blockText normalizedBlockText [] acc = acc"
| "matchTexts bid ty blockText normalizedBlockText (searchText # rest) acc =
     matchTexts bid ty blockText normalizedBlockText rest
       (considerText bid ty blockText normalizedBlockText searchText acc)"

definition childScore :: rat where
  "childScore = 9 / 10"

text \<open>
  What the loop does with the result of searching the children of a block: a result makes
  the block itself the candidate, with the score \<open>childScore\<close>, when that beats the best
  score so far.
\<close>

definition creditChild :: "string \<Rightarrow> string \<Rightarrow> block_match option \<Rightarrow> best \<Rightarrow> best" where
  "creditChild bid ty childResult acc =
     (case childResult of
        None \<Rightarrow> acc
      | Some child \<Rightarrow>
          if childScore > snd acc
          then (Some \<lparr> m_blockId = bid, m_blockType = ty,
                        m_matchedText = m_matchedText child, m_searchText = None \<rparr>, childScore)
          else acc)"

text \<open>
  The loop over the blocks of a page. A block without text is skipped by \<open>continue\<close>,
  before its children are looked at. For a block with children the function calls itself
  on the block: an identifier that \<open>extractPageId\<close> rejects throws, a failing listing
  returns \<open>null\<close>, and both count as nothing found.
\<close>

fun scanBlocks :: "string list \<Rightarrow> block list \<Rightarrow> best \<Rightarrow> best" where
  "scanBlocks nsts [] acc = acc"
| "scanBlocks nsts (Block bid ty blockText hc listed ks # rest) acc =
     (if blockText = [] then scanBlocks nsts rest acc
      else scanBlocks nsts rest
             (creditChild bid ty
                (if hc \<and> extractPageId bid \<noteq> None \<and> listed
                 then fst (scanBlocks nsts ks (None, 0)) else None)
                (matchTexts bid ty blockText (normalizeText blockText) nsts acc)))"

record block_info =
  bi_blockId :: string
  bi_blockUrl :: string
  bi_matchedText :: string

datatype notion_error = InvalidPageId string

text \<open>
  \<open>findBlockByContent\<close>, with the client initialized. \<open>listing\<close> is what listing the
  children of the page gives: its top-level blocks, or nothing when the call fails.
\<close>

definition normalizedSearchTexts :: "string list \<Rightarrow> string list" where
  "normalizedSearchTexts searchTexts = filter (\<lambda>t. t \<noteq> []) (map normalizeText searchTexts)"

definition findBlockByContent ::
  "string \<Rightarrow> string list \<Rightarrow> block list option \<Rightarrow> notion_error + block_info option" where
  "findBlockByContent pageId searchTexts listing =
     (case extractPageId pageId of
        None \<Rightarrow> Inl (InvalidPageId pageId)
      | Some normalizedPageId \<Rightarrow>
          if searchTexts = [] then Inr None
          else
            (let nsts = normalizedSearchTexts searchTexts
             in if nsts = [] then Inr None
                else
                  (case listing of
                     None \<Rightarrow> Inr None
                   | Some blocks \<Rightarrow>
                       (case fst (scanBlocks nsts blocks (None, 0)) of
                          None \<Rightarrow> Inr None
                        | Some bestMatch \<Rightarrow>
                            Inr (Some \<lparr> bi_blockId = m_blockId bestMatch,
                                         bi_blockUrl = ''https://notion.so/'' @
                                            removeDashes normalizedPageId @ ''#'' @
                                            removeDashes (m_blockId bestMatch),
                                         bi_matchedText = m_matchedText bestMatch \<rparr>)))))"

section \<open>Where a search text occurs in a page\<close>

text \<open>Every block of a list of blocks, nested ones included.\<close>

fun allBlocks :: "block list \<Rightarrow> block list" where
  "allBlocks [] = []"
| "allBlocks (Block bid ty blockText hc listed ks # rest) =
     Block bid ty blockText hc listed ks # allBlocks ks @ allBlocks rest"

text \<open>The normalized text of the block contains one of the search texts.\<close>

definition directMatch :: "string list \<Rightarrow> block \<Rightarrow> bool" where
  "directMatch nsts b = list_ex (includesText (normalizeText (b_text b))) nsts"

text \<open>
  A match the search reaches: in the text of the block, or below it through blocks that
  carry text, are flagged as having children, have an identifier of a page and list their
  children.
\<close>

fun reachedMatch :: "string list \<Rightarrow> block \<Rightarrow> bool" where
  "reachedMatch nsts (Block bid ty blockText hc listed ks) =
     (blockText \<noteq> [] \<and>
      (list_ex (includesText (normalizeText blockText)) nsts \<or>
       (hc \<and> extractPageId bid \<noteq> None \<and> listed \<and> list_ex (reachedMatch nsts) ks)))"

definition nestedMatch :: "string list \<Rightarrow> block \<Rightarrow> bool" where
  "nestedMatch nsts b =
     (b_text b \<noteq> [] \<and> has_children b \<and> extractPageId (b_id b) \<noteq> None \<and> kidsListed b \<and>
      list_ex (reachedMatch nsts) (kids b))"

text \<open>
  The score of a search text against the text of a block, zero when it does not occur; a
  block whose own text stays below \<open>childScore\<close> for every search text; a list of such
  blocks.
\<close>

definition textScore :: "string \<Rightarrow> block \<Rightarrow> rat" where
  "textScore t b =
     (if includesText (normalizeText (b_text b)) t
      then of_nat (length t) / of_nat (length (normalizeText (b_text b))) else 0)"

definition lowText :: "string list \<Rightarrow> block \<Rightarrow> bool" where
  "lowText nsts b =
     list_all (\<lambda>t. includesText (normalizeText (b_text b)) t \<longrightarrow>
        of_nat (length t) / of_nat (length (normalizeText (b_text b))) < childScore) nsts"

definition lowDirect :: "string list \<Rightarrow> block list \<Rightarrow> bool" where
  "lowDirect nsts blocks = list_all (lowText nsts) blocks"

text \<open>
  One turn of the loop on a block with text: the search of its children, and the candidate
  after the block has been looked at.
\<close>

definition childSearch :: "string list \<Rightarrow> block \<Rightarrow> block_match option" where
  "childSearch nsts b =
     (if has_children b \<and> extractPageId (b_id b) \<noteq> None \<and> kidsListed b
      then fst (scanBlocks nsts (kids b) (None, 0)) else None)"

definition visit :: "string list \<Rightarrow> block \<Rightarrow> best \<Rightarrow> best" where
  "visit nsts b acc =
     creditChild (b_id b) (b_type b) (childSearch nsts b)
       (matchTexts (b_id b) (b_type b) (b_text b) (normalizeText (b_text b)) nsts acc)"

text \<open>A candidate is sound when its score is not negative and is zero exactly when nothing is found.\<close>

definition accOk :: "best \<Rightarrow> bool" where
  "accOk acc = (0 \<le> snd acc \<and> (fst acc = None \<longleftrightarrow> snd acc = 0))"

section \<open>Example pages\<close>

definition pageA :: string where
  "pageA = ''0123456789abcdef0123456789abcdef''"

definition idB1 :: string where
  "idB1 = ''11111111111111111111111111111111''"

definition idB2 :: string where
  "idB2 = ''22222222222222222222222222222222''"

definition idB3 :: string where
  "idB3 = ''33333333333333333333333333333333''"

text \<open>A paragraph two levels below a toggle.\<close>

definition leafBlock :: block where
  "leafBlock = Block idB3 ''paragraph'' ''To reset  your password open Settings.'' False True []"

definition accountBlock :: block where
  "accountBlock =
     Block idB1 ''toggle'' ''Account'' True True
       [Block idB2 ''toggle'' ''Passwords'' True True [leafBlock]]"

definition nestedPage :: "block list" where
  "nestedPage = [accountBlock]"

text \<open>The same paragraph inside columns, which carry no text.\<close>

definition columnPage :: "block list" where
  "columnPage =
     [Block idB1 ''column_list'' [] True True
        [Block idB2 ''column'' [] True True [leafBlock]]]"

text \<open>
  A top-level paragraph that contains the search text and one more character, then a toggle
  whose child is the search text itself.
\<close>

definition looseBlock :: block where
  "looseBlock = Block idB1 ''paragraph'' ''Reset your password!'' False True []"

definition exactBlock :: block where
  "exactBlock = Block idB3 ''paragraph'' ''reset your password'' False True []"

definition passwordsBlock :: block where
  "passwordsBlock = Block idB2 ''toggle'' ''Passwords'' True True [exactBlock]"

definition tightPage :: "block list" where
  "tightPage = [looseBlock, passwordsBlock]"

section \<open>The periodic correction job (jobs.js)\<close>

text \<open>
  The directory of knowledge areas, as far as the job reads it: \<open>ka_leads\<close> holds the user
  identifiers of \<open>area.leads\<close>.
\<close>

record knowledge_area =
  ka_id :: string
  ka_name :: string
  ka_notionPageId :: string
  ka_ownerUserIds :: "string list"
  ka_leads :: "string list"

definition getKnowledgeAreaById :: "string \<Rightarrow> knowledge_area list \<Rightarrow> knowledge_area option" where
  "getKnowledgeAreaById i areas = find (\<lambda>a. ka_id a = i) areas"

definition getLeadUserIds :: "string \<Rightarrow> knowledge_area list \<Rightarrow> string list" where
  "getLeadUserIds areaId areas =
     (case getKnowledgeAreaById areaId areas of None \<Rightarrow> [] | Some area \<Rightarrow> ka_leads area)"

text \<open>\<open>config.generalFaq\<close>\<close>

record general_faq =
  adminUserIds :: "string list"
  notionPageUrl :: string

definition GENERAL_FAQ_AREA_ID :: string where
  "GENERAL_FAQ_AREA_ID = ''general-faq''"

text \<open>The answer of \<open>checkIfCorrection\<close>.\<close>

record correction_result =
  is_correction :: bool
  corrected_content :: string
  suggested_update :: string
  rationale :: string

text \<open>
  What the job meets while it handles one tracked answer: the replies of the thread, the
  verdict of the model, the search of a page for the evidence (\<open>findBlockByContent\<close> with
  the page it would list), the delivery of a direct message to a user (\<open>None\<close> when
  \<open>sendDmToUser\<close> returns false, else \<open>Date.now()\<close> when the pending action is stored), and
  the time at which the answer is marked.
\<close>

record slack_message =
  sm_user :: "string option"
  sm_text :: "string option"
  sm_ts :: string
  sm_bot_id :: "string option"

record job_env =
  repliesResult :: "string + slack_message list"
  checkIfCorrectionResult :: "string + correction_result"
  findBlock :: "string \<Rightarrow> string list \<Rightarrow> notion_error + block_info option"
  sendDmToUser :: "string \<Rightarrow> int option"
  markTime :: int

text \<open>The direct message that asks for approval: what it names and the link it carries.\<close>

record approval_request =
  rq_areaName :: string
  rq_channelName :: string
  rq_linksBlock :: bool
  rq_link :: string
  rq_suggestedUpdate :: string

text \<open>
  The loop over \<open>kbSourcePageIds\<close>: the first sub-page in which the evidence is found; a
  search that throws is skipped.
\<close>

fun searchSubPages ::
  "(string \<Rightarrow> string list \<Rightarrow> notion_error + block_info option) \<Rightarrow> string list \<Rightarrow> string list
     \<Rightarrow> (string \<times> block_info) option" where
  "searchSubPages finder [] snippets = None"
| "searchSubPages finder (subPage # rest) snippets =
     (case finder subPage snippets of
        Inr (Some info) \<Rightarrow> Some (subPage, info)
      | _ \<Rightarrow> searchSubPages finder rest snippets)"

text \<open>
  The first part of \<open>handleFaqCorrection\<close>: who is asked, which page is meant, and the
  block found so far. \<open>None\<close> is the early return for an area that no longer exists.
\<close>

definition correctionTarget ::
  "general_faq \<Rightarrow> knowledge_area list \<Rightarrow> job_env \<Rightarrow> tracked_answer
     \<Rightarrow> (string list \<times> string \<times> block_info option) option" where
  "correctionTarget generalFaq areas env trackedAnswer =
     (if a_productAreaId trackedAnswer = GENERAL_FAQ_AREA_ID
      then
        (let leadUserIds = (if respondingOwnerIds trackedAnswer \<noteq> []
                            then respondingOwnerIds trackedAnswer else adminUserIds generalFaq);
             found = (if kbSourcePageIds trackedAnswer \<noteq> [] \<and> evidence trackedAnswer \<noteq> []
                      then searchSubPages (findBlock env) (kbSourcePageIds trackedAnswer)
                             (evidence trackedAnswer)
                      else None)
         in (case found of
               Some (subPage, info) \<Rightarrow>
                 if subPage = [] then Some (leadUserIds, notionPageUrl generalFaq, Some info)
                 else Some (leadUserIds, subPage, Some info)
             | None \<Rightarrow> Some (leadUserIds, notionPageUrl generalFaq, None)))
      else
        (case getKnowledgeAreaById (a_productAreaId trackedAnswer) areas of
           None \<Rightarrow> None
         | Some area \<Rightarrow>
             Some (getLeadUserIds (a_productAreaId trackedAnswer) areas, ka_notionPageId area, None)))"

text \<open>
  The loop over the users to ask: the message is sent first, and the pending action is stored
  only for a user it reached.
\<close>

fun sendRequests ::
  "(string \<Rightarrow> int option) \<Rightarrow> approval_request \<Rightarrow> pending_intent \<Rightarrow> string list \<Rightarrow> dm_state
     \<Rightarrow> dm_state \<times> (string \<times> approval_request \<times> bool) list" where
  "sendRequests send request data [] s = (s, [])"
| "sendRequests send request data (leadId # rest) s =
     (case send leadId of
        None \<Rightarrow>
          (case sendRequests send request data rest s of
             (s', sent) \<Rightarrow> (s', (leadId, request, False) # sent))
      | Some storedAt \<Rightarrow>
          (case sendRequests send request data rest (setPendingDm leadId data storedAt s) of
             (s', sent) \<Rightarrow> (s', (leadId, request, True) # sent)))"

text \<open>\<open>blockInfo?.blockId || null\<close> and \<open>blockInfo?.blockUrl || null\<close>\<close>

definition orNull :: "string option \<Rightarrow> string option" where
  "orNull v = (if truthy v then v else None)"

text \<open>
  The second search, of the page itself, when no block is known yet and there is evidence;
  a search that throws finds nothing.
\<close>

definition locateBlock :: "job_env \<Rightarrow> tracked_answer \<Rightarrow> string \<Rightarrow> block_info option \<Rightarrow> block_info option" where
  "locateBlock env trackedAnswer pageId found =
     (if found = None \<and> evidence trackedAnswer \<noteq> []
      then (case findBlock env pageId (evidence trackedAnswer) of
              Inr r \<Rightarrow> r
            | Inl err \<Rightarrow> None)
      else found)"

text \<open>The message: the link is the block when one was found, else the page.\<close>

definition approvalRequest ::
  "correction_result \<Rightarrow> string option \<Rightarrow> string \<Rightarrow> string \<Rightarrow> block_info option \<Rightarrow> approval_request" where
  "approvalRequest correctionResult channelNameOpt areaLabel pageId info =
     \<lparr> rq_areaName = areaLabel,
       rq_channelName = (case channelNameOpt of
                           None \<Rightarrow> ''channel''
                         | Some n \<Rightarrow> if n = [] then ''channel'' else n),
       rq_linksBlock = truthy (map_option bi_blockUrl info),
       rq_link = (case orNull (map_option bi_blockUrl info) of
                    Some url \<Rightarrow> url
                  | None \<Rightarrow> ''https://notion.so/'' @
                      (case extractPageId pageId of
                         Some p \<Rightarrow> removeDashes p
                       | None \<Rightarrow> ''undefined'')),
       rq_suggestedUpdate = suggested_update correctionResult \<rparr>"

text \<open>The pending action that is stored for each user the message reached.\<close>

definition approvalData ::
  "tracked_answer \<Rightarrow> correction_result \<Rightarrow> string option \<Rightarrow> string \<Rightarrow> string \<Rightarrow> block_info option
     \<Rightarrow> pending_intent" where
  "approvalData trackedAnswer correctionResult channelNameOpt areaLabel pageId info =
     FaqCorrectionApproval
       \<lparr> correctionId = a_id trackedAnswer,
         blockId = orNull (map_option bi_blockId info),
         blockUrl = orNull (map_option bi_blockUrl info),
         notionPageId = Some pageId,
         subPageId = (if a_productAreaId trackedAnswer = GENERAL_FAQ_AREA_ID
                      then Some pageId else None),
         suggestedUpdate = suggested_update correctionResult,
         originalQuestion = a_originalQuestion trackedAnswer,
         areaName = areaLabel,
         channelName = channelNameOpt \<rparr>"

definition handleFaqCorrection ::
  "general_faq \<Rightarrow> knowledge_area list \<Rightarrow> job_env \<Rightarrow> tracked_answer \<Rightarrow> correction_result
     \<Rightarrow> string option \<Rightarrow> string \<Rightarrow> dm_state
     \<Rightarrow> dm_state \<times> (string \<times> approval_request \<times> bool) list" where
  "handleFaqCorrection generalFaq areas env trackedAnswer correctionResult channelNameOpt
       areaLabel s =
     (case correctionTarget generalFaq areas env trackedAnswer of
        None \<Rightarrow> (s, [])
      | Some (leadUserIds, pageId, found) \<Rightarrow>
          if leadUserIds = [] then (s, [])
          else
            (let info = locateBlock env trackedAnswer pageId found
             in sendRequests (sendDmToUser env)
                  (approvalRequest correctionResult channelNameOpt areaLabel pageId info)
                  (approvalData trackedAnswer correctionResult channelNameOpt areaLabel pageId info)
                  leadUserIds s))"

text \<open>
  The body of the loop of \<open>checkPendingCorrections\<close> for one tracked answer. Time stamps of
  Slack are strings and are compared as such.
\<close>

fun strLeq :: "string \<Rightarrow> string \<Rightarrow> bool" where
  "strLeq [] t = True"
| "strLeq (c # cs) [] = False"
| "strLeq (c # cs) (d # ds) = ((of_char c :: nat) < of_char d \<or> (c = d \<and> strLeq cs ds))"

definition isOwnerReply :: "string list \<Rightarrow> string \<Rightarrow> slack_message \<Rightarrow> bool" where
  "isOwnerReply correctionOwnerIds messageTs m =
     (if \<not> truthy (sm_user m) \<or> \<not> truthy (sm_text m) then False
      else if strLeq (sm_ts m) messageTs then False
      else if truthy (sm_bot_id m) then False
      else the (sm_user m) \<in> set correctionOwnerIds)"

definition correctionOwners ::
  "general_faq \<Rightarrow> knowledge_area list \<Rightarrow> tracked_answer \<Rightarrow> (string list \<times> string) option" where
  "correctionOwners generalFaq areas trackedAnswer =
     (if a_productAreaId trackedAnswer = GENERAL_FAQ_AREA_ID
      then Some (adminUserIds generalFaq, ''General FAQ'')
      else (case getKnowledgeAreaById (a_productAreaId trackedAnswer) areas of
              None \<Rightarrow> None
            | Some area \<Rightarrow> Some (ka_ownerUserIds area, ka_name area)))"

type_synonym job_state = "tracked_answer list \<times> dm_state \<times> (string \<times> approval_request \<times> bool) list"

definition processTrackedAnswer ::
  "general_faq \<Rightarrow> knowledge_area list \<Rightarrow> (string \<Rightarrow> string option) \<Rightarrow> job_env \<Rightarrow> tracked_answer
     \<Rightarrow> job_state \<Rightarrow> job_state" where
  "processTrackedAnswer generalFaq areas channelIdToName env trackedAnswer st =
     (case st of (answers, s, sent) \<Rightarrow>
        (case correctionOwners generalFaq areas trackedAnswer of
           None \<Rightarrow>
             (snd (markAnswerProcessed (a_id trackedAnswer) ''knowledge_area_deleted''
                     (markTime env) answers), s, sent)
         | Some (correctionOwnerIds, areaLabel) \<Rightarrow>
             (case repliesResult env of
                Inl err \<Rightarrow> st
              | Inr messages \<Rightarrow>
                  if filter (isOwnerReply correctionOwnerIds (a_messageTs trackedAnswer)) messages = []
                  then (snd (markAnswerProcessed (a_id trackedAnswer) ''no_owner_replies_found''
                               (markTime env) answers), s, sent)
                  else
                    (case checkIfCorrectionResult env of
                       Inl err \<Rightarrow> st
                     | Inr correctionResult \<Rightarrow>
                         if is_correction correctionResult
                         then
                           (case handleFaqCorrection generalFaq areas env trackedAnswer
                                   correctionResult (orNull (channelIdToName (a_channel trackedAnswer)))
                                   areaLabel s of
                              (s', requests) \<Rightarrow>
                                (snd (markAnswerCorrected (a_id trackedAnswer)
                                        (rationale correctionResult) (markTime env) answers),
                                 s', sent @ requests))
                         else
                           (snd (markAnswerProcessed (a_id trackedAnswer)
                                   ''no_correction_detected'' (markTime env) answers),
                            s, sent)))))"

text \<open>
  \<open>checkPendingCorrections\<close>: the answers that are ready when the job starts, one after the
  other, each with what it meets.
\<close>

fun processAnswers ::
  "general_faq \<Rightarrow> knowledge_area list \<Rightarrow> (string \<Rightarrow> string option) \<Rightarrow> (string \<Rightarrow> job_env)
     \<Rightarrow> tracked_answer list \<Rightarrow> job_state \<Rightarrow> job_state" where
  "processAnswers generalFaq areas channelIdToName envOf [] st = st"
| "processAnswers generalFaq areas channelIdToName envOf (trackedAnswer # rest) st =
     processAnswers generalFaq areas channelIdToName envOf rest
       (processTrackedAnswer generalFaq areas channelIdToName (envOf (a_id trackedAnswer))
          trackedAnswer st)"

definition checkPendingCorrections ::
  "general_faq \<Rightarrow> knowledge_area list \<Rightarrow> (string \<Rightarrow> string option) \<Rightarrow> (string \<Rightarrow> job_env) \<Rightarrow> int
     \<Rightarrow> tracked_answer list \<times> dm_state \<Rightarrow> job_state" where
  "checkPendingCorrections generalFaq areas channelIdToName envOf now st =
     (case st of (answers, s) \<Rightarrow>
        processAnswers generalFaq areas channelIdToName envOf
          (getAnswersReadyToProcess now answers) (answers, s, []))"


section \<open>Examples for the correction job\<close>








section \<open>Properties of the stores\<close>

lemma length_update_first: "length (update_first P f xs) = length xs"
  by (induction xs) auto

lemma update_first_absent: "find P xs = None \<Longrightarrow> update_first P f xs = xs"
  by (induction xs) (auto split: if_splits)

lemma find_update_first:
  "(\<And>x. P x \<Longrightarrow> P (f x)) \<Longrightarrow> find P (update_first P f xs) = map_option f (find P xs)"
  by (induction xs) auto

lemma list_all2_update_first:
  "(\<And>x. R x x) \<Longrightarrow> (\<And>x. find P xs = Some x \<Longrightarrow> R x (f x)) \<Longrightarrow> list_all2 R xs (update_first P f xs)"
  by (induction xs) (auto simp: list_all2_refl)

lemma esc_le_refl: "esc_le e e" by (simp add: esc_le_def)

lemma esc_le_trans: "esc_le a b \<Longrightarrow> esc_le b c \<Longrightarrow> esc_le a c" by (auto simp: esc_le_def)

lemma ans_le_refl: "ans_le e e" by (simp add: ans_le_def)

lemma ans_le_trans: "ans_le a b \<Longrightarrow> ans_le b c \<Longrightarrow> ans_le a c" by (auto simp: ans_le_def)

lemma stage_le_2: "esc_stage s \<le> 2" "ans_stage s \<le> 2"
  by (simp_all add: esc_stage_def ans_stage_def)

lemma recordOwnerResponse_le: "list_all2 esc_le store (snd (recordOwnerResponse i d now store))"
proof (cases "getEscalationById i store")
  case None
  then show ?thesis by (simp add: recordOwnerResponse_def list_all2_refl esc_le_refl)
next
  case (Some e)
  show ?thesis
  proof (cases "e_status e = ''awaiting_response''")
    case True
    have upd: "list_all2 esc_le store (update_first (\<lambda>e. e_id e = i) f store)"
      if f: "\<And>x. e_status x = ''awaiting_response'' \<Longrightarrow> esc_le x (f x)" for f
    proof (rule list_all2_update_first)
      fix x show "esc_le x x" by (rule esc_le_refl)
    next
      fix x assume "find (\<lambda>e. e_id e = i) store = Some x"
      then have "x = e" using Some by (simp add: getEscalationById_def)
      then show "esc_le x (f x)" using True f by simp
    qed
    show ?thesis
    proof (cases "validTime (now + d)")
      case v: True
      have "list_all2 esc_le store (update_first (\<lambda>e. e_id e = i)
                  (\<lambda>e. e\<lparr> e_status := ''ready_to_synthesize'',
                          e_firstResponseAt := Some now,
                          synthesizeAfter := Some (now + d) \<rparr>) store)"
        by (rule upd) (simp add: esc_le_def esc_stage_def)
      then show ?thesis using Some True v by (simp add: recordOwnerResponse_def)
    next
      case v: False
      have "list_all2 esc_le store (update_first (\<lambda>e. e_id e = i)
                  (\<lambda>e. e\<lparr> e_status := ''ready_to_synthesize'',
                          e_firstResponseAt := Some now \<rparr>) store)"
        by (rule upd) (simp add: esc_le_def esc_stage_def)
      then show ?thesis using Some True v by (simp add: recordOwnerResponse_def)
    qed
  next
    case False
    then show ?thesis using Some by (simp add: recordOwnerResponse_def list_all2_refl esc_le_refl)
  qed
qed

lemma markEscalationComplete_le: "list_all2 esc_le store (snd (markEscalationComplete i url now store))"
proof (cases "getEscalationById i store")
  case None
  then show ?thesis by (simp add: markEscalationComplete_def list_all2_refl esc_le_refl)
next
  case (Some e)
  have "list_all2 esc_le store (update_first (\<lambda>e. e_id e = i)
             (\<lambda>e. let e1 = e\<lparr> e_status := ''completed'', completedAt := Some now \<rparr>
                  in (case url of
                        None \<Rightarrow> e1
                      | Some u \<Rightarrow> if u = [] then e1 else e1\<lparr> faqUrl := Some u \<rparr>)) store)"
    by (rule list_all2_update_first)
       (auto simp: esc_le_def esc_stage_def Let_def split: option.splits)
  then show ?thesis using Some by (simp add: markEscalationComplete_def)
qed

lemma markEscalationSkipped_le: "list_all2 esc_le store (snd (markEscalationSkipped i reason now store))"
proof (cases "getEscalationById i store")
  case None
  then show ?thesis by (simp add: markEscalationSkipped_def list_all2_refl esc_le_refl)
next
  case (Some e)
  have "list_all2 esc_le store (update_first (\<lambda>e. e_id e = i)
             (\<lambda>e. e\<lparr> e_status := ''skipped'', skippedAt := Some now,
                     skipReason := Some reason \<rparr>) store)"
    by (rule list_all2_update_first) (auto simp: esc_le_def esc_stage_def)
  then show ?thesis using Some by (simp add: markEscalationSkipped_def)
qed

lemma esc_apply_le: "list_all2 esc_le store (esc_apply opn now store)"
  by (cases opn) (simp_all add: recordOwnerResponse_le markEscalationComplete_le markEscalationSkipped_le)

lemma list_all2_trans_rel:
  "(\<And>a b c. R a b \<Longrightarrow> R b c \<Longrightarrow> R a c) \<Longrightarrow> list_all2 R xs ys \<Longrightarrow> list_all2 R ys zs \<Longrightarrow> list_all2 R xs zs"
  by (rule list_all2_trans) auto

lemma esc_run_le: "list_all2 esc_le store (esc_run ops store)"
proof (induction ops arbitrary: store)
  case Nil
  show ?case by (simp add: list_all2_refl esc_le_refl)
next
  case (Cons p ops)
  obtain opn now where p: "p = (opn, now)" by (cases p)
  have a: "list_all2 esc_le store (esc_apply opn now store)" by (rule esc_apply_le)
  have b: "list_all2 esc_le (esc_apply opn now store) (esc_run ops (esc_apply opn now store))"
    by (rule Cons.IH)
  show ?case using list_all2_trans_rel[of esc_le, OF esc_le_trans a b] p by simp
qed

lemma noteResponse_le: "ans_le a (noteResponse u d now a)"
  by (simp add: noteResponse_def ans_le_def ans_stage_def Let_def)

lemma recordCorrectionResponse_le: "list_all2 ans_le store (snd (recordCorrectionResponse i u d now store))"
proof (cases "getFaqAnswerById i store")
  case None
  then show ?thesis by (simp add: recordCorrectionResponse_def list_all2_refl ans_le_refl)
next
  case (Some a)
  have "list_all2 ans_le store (update_first (\<lambda>a. a_id a = i) (noteResponse u d now) store)"
    by (rule list_all2_update_first) (simp_all add: ans_le_refl noteResponse_le)
  then show ?thesis using Some by (simp add: recordCorrectionResponse_def list_all2_refl ans_le_refl)
qed

lemma markAnswerProcessed_le: "list_all2 ans_le store (snd (markAnswerProcessed i info now store))"
proof (cases "getFaqAnswerById i store")
  case None
  then show ?thesis by (simp add: markAnswerProcessed_def list_all2_refl ans_le_refl)
next
  case (Some a)
  have "list_all2 ans_le store (update_first (\<lambda>a. a_id a = i)
             (\<lambda>a. a\<lparr> a_status := ''processed'', processedAt := Some now,
                     processInfo := Some info \<rparr>) store)"
    by (rule list_all2_update_first) (auto simp: ans_le_def ans_stage_def)
  then show ?thesis using Some by (simp add: markAnswerProcessed_def)
qed

lemma markAnswerCorrected_le: "list_all2 ans_le store (snd (markAnswerCorrected i info now store))"
proof (cases "getFaqAnswerById i store")
  case None
  then show ?thesis by (simp add: markAnswerCorrected_def list_all2_refl ans_le_refl)
next
  case (Some a)
  have "list_all2 ans_le store (update_first (\<lambda>a. a_id a = i)
             (\<lambda>a. a\<lparr> a_status := ''corrected'', correctedAt := Some now,
                     correctionInfo := Some info \<rparr>) store)"
    by (rule list_all2_update_first) (auto simp: ans_le_def ans_stage_def)
  then show ?thesis using Some by (simp add: markAnswerCorrected_def)
qed

lemma ans_apply_le: "list_all2 ans_le store (ans_apply opn now store)"
  by (cases opn) (simp_all add: recordCorrectionResponse_le markAnswerProcessed_le markAnswerCorrected_le)

lemma ans_run_le: "list_all2 ans_le store (ans_run ops store)"
proof (induction ops arbitrary: store)
  case Nil
  show ?case by (simp add: list_all2_refl ans_le_refl)
next
  case (Cons p ops)
  obtain opn now where p: "p = (opn, now)" by (cases p)
  have a: "list_all2 ans_le store (ans_apply opn now store)" by (rule ans_apply_le)
  have b: "list_all2 ans_le (ans_apply opn now store) (ans_run ops (ans_apply opn now store))"
    by (rule Cons.IH)
  show ?case using list_all2_trans_rel[of ans_le, OF ans_le_trans a b] p by simp
qed

text \<open>
  Claim C1 says that pruning never removes a non-terminal record. The escalation filter
  exempts the status \<open>pending\<close>, which no escalation ever has: an escalation still
  in \<open>awaiting_response\<close> that was created 31 days ago is removed by a 30-day cleanup.
\<close>

theorem cleanupOldEscalations_removes_awaiting:
  "e_status exampleEscalation = ''awaiting_response'' \<and>
   cleanupOldEscalations 30 (1000 + 31 * msPerDay) [exampleEscalation] = (1, [])"
  by (simp add: exampleEscalation_def trackEscalation_def cleanupOldEscalations_def
        keepEscalation_def escalationTimestamp_def msPerDay_def Let_def)

lemma cleanupOldFaqAnswers_keeps_active:
  "a \<in> set store \<Longrightarrow> a_status a = ''active'' \<or> a_status a = ''pending_correction'' \<Longrightarrow>
   a \<in> set (snd (cleanupOldFaqAnswers days now store))"
  by (simp add: cleanupOldFaqAnswers_def keepFaqAnswer_def Let_def)

lemma cleanupOldFaqAnswers_removed:
  "a \<in> set store \<Longrightarrow> a \<notin> set (snd (cleanupOldFaqAnswers days now store)) \<Longrightarrow>
   a_status a \<noteq> ''active'' \<and> a_status a \<noteq> ''pending_correction'' \<and>
   answerTimestamp a \<le> now - days * msPerDay"
  by (auto simp add: cleanupOldFaqAnswers_def keepFaqAnswer_def Let_def split: if_splits)

lemma cleanupOldEscalations_removed:
  "e \<in> set store \<Longrightarrow> e \<notin> set (snd (cleanupOldEscalations days now store)) \<Longrightarrow>
   escalationTimestamp e \<le> now - days * msPerDay"
  by (auto simp add: cleanupOldEscalations_def keepEscalation_def Let_def split: if_splits)

text \<open>
  Claim C4 as stated fails: \<open>markAnswerProcessed\<close> on a record that is already
  \<open>corrected\<close> returns true and overwrites the status.
\<close>

theorem markAnswerProcessed_on_terminal:
  "a_status correctedAnswer = ''corrected'' \<and>
   markAnswerProcessed ''ans_1'' ''late'' 3000 [correctedAnswer] =
     (True, [correctedAnswer\<lparr> a_status := ''processed'', processedAt := Some 3000,
                               processInfo := Some ''late'' \<rparr>])"
  by (simp add: Let_def correctedAnswer_def exampleAnswer_def trackFaqAnswer_def markAnswerProcessed_def
        getFaqAnswerById_def)

text \<open>
  Claim C4, amended: \<open>markAnswerProcessed\<close> and \<open>markAnswerCorrected\<close> return
  false, leaving the store as it is, exactly when no record has the identifier; on any
  record found, whatever its status, they return true and set the status, the time stamp and
  the payload.
\<close>

theorem markAnswer_unguarded:
  "(case getFaqAnswerById i store of
      None \<Rightarrow> markAnswerProcessed i info now store = (False, store) \<and>
              markAnswerCorrected i info now store = (False, store)
    | Some a \<Rightarrow>
        fst (markAnswerProcessed i info now store) \<and>
        getFaqAnswerById i (snd (markAnswerProcessed i info now store)) =
          Some (a\<lparr> a_status := ''processed'', processedAt := Some now, processInfo := Some info \<rparr>) \<and>
        fst (markAnswerCorrected i info now store) \<and>
        getFaqAnswerById i (snd (markAnswerCorrected i info now store)) =
          Some (a\<lparr> a_status := ''corrected'', correctedAt := Some now, correctionInfo := Some info \<rparr>))"
  by (auto simp: markAnswerProcessed_def markAnswerCorrected_def getFaqAnswerById_def
        find_update_first split: option.splits)

text \<open>
  Claim C5 as stated fails: a skipped escalation that is then completed moves from one
  terminal status to the other, which is not an advance.
\<close>

theorem status_terminal_to_terminal:
  "map e_status (esc_run [(MarkEscalationSkipped ''esc_1'' ''no_responses_found'', 2000)]
        [exampleEscalation]) = [''skipped''] \<and>
   map e_status (esc_run [(MarkEscalationSkipped ''esc_1'' ''no_responses_found'', 2000),
                          (MarkEscalationComplete ''esc_1'' None, 3000)]
        [exampleEscalation]) = [''completed''] \<and>
   \<not> status_advances esc_stage ''skipped'' ''completed''"
  by (simp add: Let_def exampleEscalation_def trackEscalation_def markEscalationSkipped_def
        markEscalationComplete_def getEscalationById_def status_advances_def esc_stage_def)

text \<open>
  Claim C5, amended: under any sequence of the store operations every escalation and every
  tracked answer keeps its identifier and never moves to a lower stage.
\<close>

theorem status_stage_never_decreases:
  "list_all2 esc_le store (esc_run ops store) \<and> list_all2 ans_le answers (ans_run aops answers)"
  by (simp add: esc_run_le ans_run_le)

lemma noteResponse_set:
  "set (respondingOwnerIds (noteResponse u d now a)) = insert u (set (respondingOwnerIds a))"
  by (auto simp: noteResponse_def Let_def)

lemma noteResponse_distinct:
  "distinct (respondingOwnerIds a) \<Longrightarrow> distinct (respondingOwnerIds (noteResponse u d now a))"
  by (auto simp: noteResponse_def Let_def)

lemma noteResponse_active:
  "a_status a = ''active'' \<Longrightarrow> validTime (now + d) \<Longrightarrow>
   a_status (noteResponse u d now a) = ''pending_correction'' \<and>
   processAfter (noteResponse u d now a) = Some (now + d)"
  by (simp add: noteResponse_def Let_def)

lemma noteResponse_out_of_range:
  "a_status a = ''active'' \<Longrightarrow> \<not> validTime (now + d) \<Longrightarrow>
   a_status (noteResponse u d now a) = ''pending_correction'' \<and>
   a_firstResponseAt (noteResponse u d now a) = Some now \<and>
   processAfter (noteResponse u d now a) = processAfter a"
  by (simp add: noteResponse_def Let_def)

lemma noteResponse_not_active:
  "a_status a \<noteq> ''active'' \<Longrightarrow>
   a_status (noteResponse u d now a) = a_status a \<and>
   processAfter (noteResponse u d now a) = processAfter a"
  by (simp add: noteResponse_def Let_def)

lemma noteResponse_id: "a_id (noteResponse u d now a) = a_id a"
  by (simp add: noteResponse_def Let_def)

lemma recordCorrectionResponse_found:
  "getFaqAnswerById i store = Some a \<Longrightarrow> a_status a \<noteq> ''corrected'' \<Longrightarrow> a_status a \<noteq> ''processed'' \<Longrightarrow>
   fst (recordCorrectionResponse i u d now store) =
     (if noteResponseThrows d now a then Inl RangeError else Inr True) \<and>
   getFaqAnswerById i (snd (recordCorrectionResponse i u d now store)) = Some (noteResponse u d now a)"
  by (simp add: recordCorrectionResponse_def getFaqAnswerById_def find_update_first noteResponse_id)

text \<open>
  A delay that leads out of the range of \<open>Date\<close>: the call on an active record throws,
  after it has added the responder and set the status; \<open>processAfter\<close> stays as it was.
\<close>

lemma recordCorrectionResponse_out_of_range:
  assumes "getFaqAnswerById i store = Some a" and "a_status a = ''active''"
    and "\<not> validTime (now + d)"
  shows "fst (recordCorrectionResponse i u d now store) = Inl RangeError \<and>
     (\<exists>a'. getFaqAnswerById i (snd (recordCorrectionResponse i u d now store)) = Some a' \<and>
        set (respondingOwnerIds a') = insert u (set (respondingOwnerIds a)) \<and>
        a_status a' = ''pending_correction'' \<and> processAfter a' = processAfter a)"
  using recordCorrectionResponse_found[OF assms(1), of u d now] assms(2,3)
    noteResponse_set[of u d now a] noteResponse_out_of_range[OF assms(2,3), of u]
  by (simp add: noteResponseThrows_def)

lemma recordCorrectionResponse_out_of_range_example:
  "recordCorrectionResponse ''ans_1'' ''U1'' 10000000000000000 2000 [exampleAnswer] =
     (Inl RangeError,
      [exampleAnswer\<lparr> a_status := ''pending_correction'', respondingOwnerIds := [''U1''],
                a_firstResponseAt := Some 2000 \<rparr>])"
  by (simp add: Let_def recordCorrectionResponse_def getFaqAnswerById_def exampleAnswer_def
        trackFaqAnswer_def noteResponse_def noteResponseThrows_def validTime_def maxTimeMs_def)

text \<open>
  Claim C7, for a delay that leads to a time a \<open>Date\<close> can hold:
  \<open>recordCorrectionResponse\<close> returns false, changing nothing, exactly when
  the record is missing or already corrected or processed. Otherwise it returns true, the
  responder set gains the user (no duplicate is introduced), an active record becomes
  \<open>pending_correction\<close> with \<open>processAfter = now + delayMs\<close>, and a record already
  in \<open>pending_correction\<close> keeps its \<open>processAfter\<close>. Two different owners responding
  to a fresh record leave two responders and the \<open>processAfter\<close> of the first call,
  whatever the delay of the second.
\<close>

theorem recordCorrectionResponse_spec:
  assumes "validTime (now + d)"
  shows "(case getFaqAnswerById i store of
      None \<Rightarrow> recordCorrectionResponse i u d now store = (Inr False, store)
    | Some a \<Rightarrow>
        if a_status a = ''corrected'' \<or> a_status a = ''processed''
        then recordCorrectionResponse i u d now store = (Inr False, store)
        else fst (recordCorrectionResponse i u d now store) = Inr True \<and>
             (\<exists>a'. getFaqAnswerById i (snd (recordCorrectionResponse i u d now store)) = Some a' \<and>
                set (respondingOwnerIds a') = insert u (set (respondingOwnerIds a)) \<and>
                (distinct (respondingOwnerIds a) \<longrightarrow> distinct (respondingOwnerIds a')) \<and>
                (a_status a = ''active'' \<longrightarrow>
                   a_status a' = ''pending_correction'' \<and> processAfter a' = Some (now + d)) \<and>
                (a_status a = ''pending_correction'' \<longrightarrow>
                   a_status a' = ''pending_correction'' \<and> processAfter a' = processAfter a) \<and>
                (a_status a = ''active'' \<and> respondingOwnerIds a = [] \<and> u2 \<noteq> u \<longrightarrow>
                   fst (recordCorrectionResponse i u2 d2 now2
                          (snd (recordCorrectionResponse i u d now store))) = Inr True \<and>
                   (\<exists>a''. getFaqAnswerById i (snd (recordCorrectionResponse i u2 d2 now2
                          (snd (recordCorrectionResponse i u d now store)))) = Some a'' \<and>
                      respondingOwnerIds a'' = [u, u2] \<and>
                      processAfter a'' = Some (now + d)))))"
proof (cases "getFaqAnswerById i store")
  case None
  then show ?thesis by (simp add: recordCorrectionResponse_def)
next
  case (Some a)
  show ?thesis
  proof (cases "a_status a = ''corrected'' \<or> a_status a = ''processed''")
    case True
    then show ?thesis using Some by (auto simp add: recordCorrectionResponse_def)
  next
    case False
    let ?s1 = "snd (recordCorrectionResponse i u d now store)"
    let ?a1 = "noteResponse u d now a"
    have nt: "\<not> noteResponseThrows d now a"
      using assms by (simp add: noteResponseThrows_def)
    have r1: "fst (recordCorrectionResponse i u d now store) = Inr True"
      "getFaqAnswerById i ?s1 = Some ?a1"
      using recordCorrectionResponse_found[OF Some, of u d now] False nt by auto
    have two: "fst (recordCorrectionResponse i u2 d2 now2 ?s1) = Inr True \<and>
               (\<exists>a''. getFaqAnswerById i (snd (recordCorrectionResponse i u2 d2 now2 ?s1)) = Some a'' \<and>
                      respondingOwnerIds a'' = [u, u2] \<and> processAfter a'' = Some (now + d))"
      if h: "a_status a = ''active''" "respondingOwnerIds a = []" "u2 \<noteq> u"
    proof -
      have st1: "a_status ?a1 = ''pending_correction''" "processAfter ?a1 = Some (now + d)"
        using noteResponse_active[OF h(1) assms] by auto
      have ro1: "respondingOwnerIds ?a1 = [u]"
        using h assms by (simp add: noteResponse_def Let_def)
      have nt2: "\<not> noteResponseThrows d2 now2 ?a1"
        using st1 by (simp add: noteResponseThrows_def)
      have r2: "fst (recordCorrectionResponse i u2 d2 now2 ?s1) = Inr True"
               "getFaqAnswerById i (snd (recordCorrectionResponse i u2 d2 now2 ?s1)) = Some (noteResponse u2 d2 now2 ?a1)"
        using recordCorrectionResponse_found[OF r1(2), of u2 d2 now2] st1 nt2 by auto
      have "respondingOwnerIds (noteResponse u2 d2 now2 ?a1) = [u, u2]"
        using ro1 h(3) st1 by (simp add: noteResponse_def[of u2] Let_def)
      moreover have "processAfter (noteResponse u2 d2 now2 ?a1) = Some (now + d)"
        using noteResponse_not_active[of ?a1 u2 d2 now2] st1 by simp
      ultimately show ?thesis using r2 by simp
    qed
    show ?thesis
      using Some False r1 noteResponse_set[of u d now a] noteResponse_distinct[of a u d now]
        noteResponse_active[of a now d u, OF _ assms] noteResponse_not_active[of a u d now] two
      by simp
  qed
qed

text \<open>
  Claim C7 at a concrete record: the first owner responds at 2000 with a delay of 5000, the
  second at 4000 with a delay of 9000.
\<close>

theorem recordCorrectionResponse_spec_witness:
  "validTime (2000 + 5000) \<and>
   recordCorrectionResponse ''ans_1'' ''U1'' 5000 2000 [exampleAnswer] =
     (Inr True, [exampleAnswer\<lparr> a_status := ''pending_correction'', respondingOwnerIds := [''U1''],
                a_firstResponseAt := Some 2000, processAfter := Some 7000 \<rparr>]) \<and>
   (\<exists>a''. getFaqAnswerById ''ans_1'' (snd (recordCorrectionResponse ''ans_1'' ''U2'' 9000 4000
            (snd (recordCorrectionResponse ''ans_1'' ''U1'' 5000 2000 [exampleAnswer])))) = Some a'' \<and>
          respondingOwnerIds a'' = [''U1'', ''U2''] \<and> processAfter a'' = Some 7000)"
proof -
  have v: "validTime (2000 + 5000)" by (simp add: validTime_def maxTimeMs_def)
  have f: "getFaqAnswerById ''ans_1'' [exampleAnswer] = Some exampleAnswer"
    by (simp add: Let_def getFaqAnswerById_def exampleAnswer_def trackFaqAnswer_def)
  have s: "a_status exampleAnswer = ''active''" "respondingOwnerIds exampleAnswer = []"
    by (simp_all add: Let_def exampleAnswer_def trackFaqAnswer_def)
  have e: "recordCorrectionResponse ''ans_1'' ''U1'' 5000 2000 [exampleAnswer] =
     (Inr True, [exampleAnswer\<lparr> a_status := ''pending_correction'', respondingOwnerIds := [''U1''],
                a_firstResponseAt := Some 2000, processAfter := Some 7000 \<rparr>])"
    by (simp add: Let_def recordCorrectionResponse_def getFaqAnswerById_def exampleAnswer_def
          trackFaqAnswer_def noteResponse_def noteResponseThrows_def validTime_def maxTimeMs_def)
  show ?thesis
    using recordCorrectionResponse_spec[OF v, where i = "''ans_1''" and store = "[exampleAnswer]"
        and u = "''U1''" and ?u2.0 = "''U2''" and ?d2.0 = 9000 and ?now2.0 = 4000]
      f s e v
    by auto
qed

section \<open>Properties of the conversation handler\<close>

lemma processed_clearPendingDm [simp]:
  "processedCorrections (clearPendingDm u s) = processedCorrections s"
  by (simp add: clearPendingDm_def)

lemma processed_clearPendingDmsForCorrection [simp]:
  "processedCorrections (clearPendingDmsForCorrection c s) = processedCorrections s"
  by (simp add: clearPendingDmsForCorrection_def)

lemma processed_setPendingDm [simp]:
  "processedCorrections (setPendingDm u d t s) = processedCorrections s"
  by (simp add: setPendingDm_def)

lemma processed_getPendingDm [simp]:
  "processedCorrections (snd (getPendingDm u t s)) = processedCorrections s"
  by (simp add: getPendingDm_def split: option.splits)

lemma appliedCount_simps [simp]:
  "appliedCount c [] = 0"
  "appliedCount c (PostMessage ch r # es) = appliedCount c es"
  "appliedCount c (CacheDelete p # es) = appliedCount c es"
  "appliedCount c (AddCommentToBlock b ok # es) = appliedCount c es"
  "appliedCount c (AddKnowledgeAreaCall n u l ok # es) = appliedCount c es"
  "appliedCount c (UpdateFaqBlock c' b t ok # es) = (if c' = c \<and> ok then Suc (appliedCount c es) else appliedCount c es)"
  "appliedCount c (es @ fs) = appliedCount c es + appliedCount c fs"
  by (simp_all add: appliedCount_def isAppliedFor_def)

lemma step_ok_same [simp]:
  "processedCorrections s' = processedCorrections s \<Longrightarrow> appliedCount c effects = 0 \<Longrightarrow> step_ok c s s' effects"
  by (simp add: step_ok_def)

lemma applyCorrection_ok:
  "correctionId d \<notin> processedCorrections s \<Longrightarrow>
   applyCorrection u ch d b up s = (s', effects, thrown) \<Longrightarrow> step_ok c s s' effects"
  by (cases "updateFaqBlockResult up")
     (auto simp: applyCorrection_def step_ok_def split: if_splits)

lemma reviseCorrection_ok:
  "reviseCorrection u ch d up s = (s', effects, thrown) \<Longrightarrow> step_ok c s s' effects"
  by (auto simp: reviseCorrection_def split: sum.splits option.splits if_splits)

lemma continueCorrection_ok:
  "continueCorrection u ch txt d up s = (s', effects, thrown) \<Longrightarrow> step_ok c s s' effects"
  by (auto simp: continueCorrection_def cannotAutoUpdate_def Let_def
        split: if_splits option.splits dest: applyCorrection_ok reviseCorrection_ok)

lemma continueAddArea_ok:
  "continueAddArea u ch txt d up s = (s', effects, thrown) \<Longrightarrow> step_ok c s s' effects"
  by (auto simp: continueAddArea_def Let_def split: if_splits option.splits sum.splits)

lemma continuePendingDm_ok:
  "continuePendingDm u ch txt p up s = (s', effects, thrown) \<Longrightarrow> step_ok c s s' effects"
  by (cases "action p")
     (auto simp: continuePendingDm_def dest: continueCorrection_ok continueAddArea_ok)

lemma handleDmAddKnowledgeArea_ok:
  "handleDmAddKnowledgeArea u ch parsed up s = (s', effects, thrown) \<Longrightarrow> step_ok c s s' effects"
  by (cases parsed)
     (auto simp: handleDmAddKnowledgeArea_def Let_def split: if_splits sum.splits)

lemma handleParsedIntent_ok:
  "handleParsedIntent u ch parsed up s = (s', effects, thrown) \<Longrightarrow> step_ok c s s' effects"
  by (cases parsed)
     (auto simp: handleParsedIntent_def split: if_splits dest: handleDmAddKnowledgeArea_ok)

lemma step_ok_seen:
  "step_ok c (s\<lparr> seen := m \<rparr>) s' effects \<Longrightarrow> step_ok c s s' effects"
  by (simp add: step_ok_def)

lemma step_ok_getPendingDm:
  "step_ok c (snd (getPendingDm u t s)) s' effects \<Longrightarrow> step_ok c s s' effects"
  by (simp add: step_ok_def)

lemma step_ok_post:
  "step_ok c s s' effects \<Longrightarrow> step_ok c s s' (effects @ [PostMessage ch r])"
  by (simp add: step_ok_def)

lemma dispatchDm_ok:
  assumes "dispatchDm u ch txt pendingOpt up s1 = (s2, effects, thrown)"
  shows "step_ok c s1 s2 effects"
proof (cases pendingOpt)
  case (Some pending)
  then have "continuePendingDm u ch txt pending up s1 = (s2, effects, thrown)"
    using assms by (simp add: dispatchDm_def)
  then show ?thesis by (rule continuePendingDm_ok)
next
  case None
  show ?thesis
  proof (cases "parseDmIntentResult up")
    case (Inl err)
    then have "s2 = s1" "effects = []" using assms None by (simp_all add: dispatchDm_def)
    then show ?thesis by simp
  next
    case (Inr parsed)
    then have "handleParsedIntent u ch parsed up s1 = (s2, effects, thrown)"
      using assms None by (simp add: dispatchDm_def)
    then show ?thesis by (rule handleParsedIntent_ok)
  qed
qed

lemma reportThrown_ok:
  "reportThrown ch (dispatchDm u ch' txt pendingOpt up s1) = (s', effects) \<Longrightarrow>
   step_ok c s1 s' effects"
proof -
  assume a: "reportThrown ch (dispatchDm u ch' txt pendingOpt up s1) = (s', effects)"
  obtain s2 effs thrown where d: "dispatchDm u ch' txt pendingOpt up s1 = (s2, effs, thrown)"
    by (metis prod_cases3)
  have ok: "step_ok c s1 s2 effs" by (rule dispatchDm_ok[OF d])
  show ?thesis
  proof (cases thrown)
    case None
    then show ?thesis using a d ok by (simp add: reportThrown_def)
  next
    case (Some err)
    then show ?thesis using a d step_ok_post[OF ok] by (auto simp add: reportThrown_def)
  qed
qed

lemma handleDm_unfold:
  "handleDm botId ev up now s =
    (if ignoresEvent botId ev \<or> eventText ev = [] then (s, [])
     else if fst (alreadySeen (dedupeKey ev) dedupeTtlMs now (seen s))
     then (s\<lparr> seen := snd (alreadySeen (dedupeKey ev) dedupeTtlMs now (seen s)) \<rparr>, [])
     else reportThrown (ev_channel ev)
            (dispatchDm (ev_user ev) (ev_channel ev) (eventText ev)
               (fst (getPendingDm (ev_user ev) now (s\<lparr> seen := snd (alreadySeen (dedupeKey ev) dedupeTtlMs now (seen s)) \<rparr>)))
               up
               (snd (getPendingDm (ev_user ev) now (s\<lparr> seen := snd (alreadySeen (dedupeKey ev) dedupeTtlMs now (seen s)) \<rparr>)))))"
  unfolding handleDm_def
  by (simp only: case_prod_beta split: if_split) simp

lemma handleDm_ignored:
  "ignoresEvent botId ev \<or> eventText ev = [] \<Longrightarrow> handleDm botId ev up now s = (s, [])"
  by (simp add: handleDm_unfold)

lemma handleDm_duplicate:
  "\<not> (ignoresEvent botId ev \<or> eventText ev = []) \<Longrightarrow>
   fst (alreadySeen (dedupeKey ev) dedupeTtlMs now (seen s)) \<Longrightarrow>
   handleDm botId ev up now s = (s\<lparr> seen := snd (alreadySeen (dedupeKey ev) dedupeTtlMs now (seen s)) \<rparr>, [])"
  by (simp add: handleDm_unfold)

lemma handleDm_fresh:
  "\<not> (ignoresEvent botId ev \<or> eventText ev = []) \<Longrightarrow>
   \<not> fst (alreadySeen (dedupeKey ev) dedupeTtlMs now (seen s)) \<Longrightarrow>
   handleDm botId ev up now s =
     reportThrown (ev_channel ev)
       (dispatchDm (ev_user ev) (ev_channel ev) (eventText ev)
          (fst (getPendingDm (ev_user ev) now (s\<lparr> seen := snd (alreadySeen (dedupeKey ev) dedupeTtlMs now (seen s)) \<rparr>)))
          up
          (snd (getPendingDm (ev_user ev) now (s\<lparr> seen := snd (alreadySeen (dedupeKey ev) dedupeTtlMs now (seen s)) \<rparr>))))"
  by (simp add: handleDm_unfold)

lemma step_ok_prod: "step_ok c s (fst r) (snd r) \<Longrightarrow> r = (s', effects) \<Longrightarrow> step_ok c s s' effects"
  by auto

lemma handleDm_ok:
  assumes "handleDm botId ev up now s = (s', effects)"
  shows "step_ok c s s' effects"
proof -
  let ?seen1 = "snd (alreadySeen (dedupeKey ev) dedupeTtlMs now (seen s))"
  let ?g = "getPendingDm (ev_user ev) now (s\<lparr> seen := ?seen1 \<rparr>)"
  have "step_ok c s (fst (handleDm botId ev up now s)) (snd (handleDm botId ev up now s))"
  proof (cases "ignoresEvent botId ev \<or> eventText ev = []")
    case True
    show ?thesis unfolding handleDm_ignored[OF True] by simp
  next
    case False
    show ?thesis
    proof (cases "fst (alreadySeen (dedupeKey ev) dedupeTtlMs now (seen s))")
      case True
      show ?thesis unfolding handleDm_duplicate[OF False True] by simp
    next
      case nd: False
      let ?r = "reportThrown (ev_channel ev)
        (dispatchDm (ev_user ev) (ev_channel ev) (eventText ev) (fst ?g) up (snd ?g))"
      have "step_ok c (snd ?g) (fst ?r) (snd ?r)"
        by (rule reportThrown_ok) simp
      then have "step_ok c s (fst ?r) (snd ?r)"
        by (rule step_ok_seen[OF step_ok_getPendingDm])
      then show ?thesis unfolding handleDm_fresh[OF False nd] .
    qed
  qed
  then show ?thesis by (rule step_ok_prod) (rule assms)
qed

lemma dm_apply_ok:
  "dm_apply step s = (s', effects) \<Longrightarrow> step_ok c s s' effects"
  by (cases step) (auto dest: handleDm_ok)

lemma dm_run_ok:
  "dm_run steps s = (s', effects) \<Longrightarrow>
   processedCorrections s \<subseteq> processedCorrections s' \<and>
   appliedCount c effects \<le> (if c \<in> processedCorrections s then 0 else 1)"
proof (induction steps arbitrary: s s' effects)
  case Nil
  then show ?case by simp
next
  case (Cons step steps)
  obtain s1 e1 where a: "dm_apply step s = (s1, e1)" by (cases "dm_apply step s")
  obtain s2 e2 where r: "dm_run steps s1 = (s2, e2)" by (cases "dm_run steps s1")
  have eq: "s' = s2" "effects = e1 @ e2" using Cons.prems a r by auto
  have ok: "step_ok c s s1 e1" by (rule dm_apply_ok[OF a])
  have ih: "processedCorrections s1 \<subseteq> processedCorrections s2 \<and>
            appliedCount c e2 \<le> (if c \<in> processedCorrections s1 then 0 else 1)"
    by (rule Cons.IH[OF r])
  show ?case using ok ih unfolding eq step_ok_def by (auto split: if_splits)
qed

lemma isApproval_yes: "isApproval (trim (toLowerCase ''Yes''))"
  by (simp add: isApproval_def trim_def toLowerCase_def toLowerChar_def upperAlpha_def upperLatin_def lowerLatin_def
        lowerAlpha_def is_space_def approvalWords_def startsWithWord_def)


lemma getPendingDm_expired:
  "pendingDmActions s u = Some p \<Longrightarrow> expiresAt p < t \<Longrightarrow>
   getPendingDm u t s = (None, clearPendingDm u s)"
  by (simp add: getPendingDm_def clearPendingDm_def)

lemma getPendingDm_absent:
  "pendingDmActions s u = None \<Longrightarrow> getPendingDm u t s = (None, s)"
  by (simp add: getPendingDm_def)

lemma pending_clearPendingDm [simp]:
  "pendingDmActions (clearPendingDm u s) = (pendingDmActions s)(u := None)"
  by (simp add: clearPendingDm_def)

lemma seen_clearPendingDm [simp]: "seen (clearPendingDm u s) = seen s"
  by (simp add: clearPendingDm_def)

lemma clearPendingDm_seen_update:
  "clearPendingDm u (s\<lparr> seen := m \<rparr>) = (clearPendingDm u s)\<lparr> seen := m \<rparr>"
  by (simp add: clearPendingDm_def)

lemma clearPendingDm_idem: "clearPendingDm u (clearPendingDm u s) = clearPendingDm u s"
  by (simp add: clearPendingDm_def)

lemma getPendingDm_cleared:
  "getPendingDm u t (clearPendingDm u s) = (None, clearPendingDm u s)"
  by (simp add: getPendingDm_absent)

lemma handleDm_expired:
  assumes p: "pendingDmActions s (ev_user ev) = Some p" and e: "expiresAt p < now"
  shows "snd (handleDm botId ev up now s) = snd (handleDm botId ev up now (clearPendingDm (ev_user ev) s))"
    and "\<not> (ignoresEvent botId ev \<or> eventText ev = []) \<Longrightarrow>
         \<not> fst (alreadySeen (dedupeKey ev) dedupeTtlMs now (seen s)) \<Longrightarrow>
         handleDm botId ev up now s =
           reportThrown (ev_channel ev)
             (dispatchDm (ev_user ev) (ev_channel ev) (eventText ev) None up
               (clearPendingDm (ev_user ev)
                  (s\<lparr> seen := snd (alreadySeen (dedupeKey ev) dedupeTtlMs now (seen s)) \<rparr>)))"
proof -
  let ?u = "ev_user ev"
  let ?seen1 = "snd (alreadySeen (dedupeKey ev) dedupeTtlMs now (seen s))"
  have g1: "getPendingDm ?u now (s\<lparr> seen := ?seen1 \<rparr>) = (None, clearPendingDm ?u (s\<lparr> seen := ?seen1 \<rparr>))"
    by (rule getPendingDm_expired[where p = p]) (simp_all add: p e)
  have g2: "getPendingDm ?u now ((clearPendingDm ?u s)\<lparr> seen := ?seen1 \<rparr>) =
              (None, clearPendingDm ?u (s\<lparr> seen := ?seen1 \<rparr>))"
    unfolding clearPendingDm_seen_update[symmetric] by (rule getPendingDm_cleared)
  show "snd (handleDm botId ev up now s) = snd (handleDm botId ev up now (clearPendingDm ?u s))"
    by (simp add: handleDm_unfold g1 g2)
  show "\<not> (ignoresEvent botId ev \<or> eventText ev = []) \<Longrightarrow>
         \<not> fst (alreadySeen (dedupeKey ev) dedupeTtlMs now (seen s)) \<Longrightarrow>
         handleDm botId ev up now s =
           reportThrown (ev_channel ev)
             (dispatchDm ?u (ev_channel ev) (eventText ev) None up
               (clearPendingDm ?u (s\<lparr> seen := ?seen1 \<rparr>)))"
    by (simp add: handleDm_fresh g1)
qed

text \<open>
  Claim C8: \<open>setPendingDm\<close> stores the action with an expiry ten minutes after the
  write. When a lookup comes after the expiry it returns nothing and deletes the entry, every
  later lookup for that user returns nothing and changes nothing, and a message of that user
  is handled as if the user had no pending action: the listener does what it does on the
  state without the entry.
\<close>

theorem pending_action_expiry:
  "pendingDmActions (setPendingDm u d now s) u =
     Some \<lparr> action = d, expiresAt = now + 10 * 60 * 1000 \<rparr> \<and>
   (pendingDmActions s u = Some p \<and> expiresAt p < t \<longrightarrow>
      fst (getPendingDm u t s) = None \<and>
      pendingDmActions (snd (getPendingDm u t s)) u = None \<and>
      (\<forall>t'. getPendingDm u t' (snd (getPendingDm u t s)) = (None, snd (getPendingDm u t s))) \<and>
      (ev_user ev = u \<longrightarrow>
         snd (handleDm botId ev up t s) = snd (handleDm botId ev up t (clearPendingDm u s)) \<and>
         (\<not> (ignoresEvent botId ev \<or> eventText ev = []) \<and>
          \<not> fst (alreadySeen (dedupeKey ev) dedupeTtlMs t (seen s)) \<longrightarrow>
            handleDm botId ev up t s =
              reportThrown (ev_channel ev)
                (dispatchDm u (ev_channel ev) (eventText ev) None up
                   (clearPendingDm u
                      (s\<lparr> seen := snd (alreadySeen (dedupeKey ev) dedupeTtlMs t (seen s)) \<rparr>))))))"
proof -
  have w: "pendingDmActions (setPendingDm u d now s) u =
     Some \<lparr> action = d, expiresAt = now + 10 * 60 * 1000 \<rparr>"
    by (simp add: setPendingDm_def PENDING_DM_EXPIRY_MS_def)
  have r: "fst (getPendingDm u t s) = None \<and>
      pendingDmActions (snd (getPendingDm u t s)) u = None \<and>
      (\<forall>t'. getPendingDm u t' (snd (getPendingDm u t s)) = (None, snd (getPendingDm u t s)))"
    if "pendingDmActions s u = Some p" "expiresAt p < t"
    using getPendingDm_expired[OF that] by (simp add: getPendingDm_cleared)
  show ?thesis using w r handleDm_expired[of s ev p t botId up] by blast
qed

lemma pending_clearPendingDmsForCorrection:
  "pendingDmActions (clearPendingDmsForCorrection c s) u =
     (case pendingDmActions s u of
        None \<Rightarrow> None
      | Some p \<Rightarrow> if refersTo c p then None else Some p)"
  by (simp add: clearPendingDmsForCorrection_def)

lemma no_sibling_after_clear:
  "pendingDmActions (clearPendingDmsForCorrection c s) u = Some p \<Longrightarrow> \<not> refersTo c p"
  by (auto simp: pending_clearPendingDmsForCorrection split: option.splits if_splits)

lemma continueCorrection_success:
  assumes "correctionId d \<notin> processedCorrections s"
    and "isApproval (trim (toLowerCase txt))"
    and "blockId d = Some b" and "b \<noteq> []"
    and "updateFaqBlockResult up = Inr url"
  shows "continueCorrection u ch txt d up s =
           (clearPendingDmsForCorrection (correctionId d)
              (clearPendingDm u
                 (s\<lparr> processedCorrections := insert (correctionId d) (processedCorrections s) \<rparr>)),
            [UpdateFaqBlock (correctionId d) b (suggestedUpdate d) True,
             CacheDelete (notionPageId d)] @
            (if truthy (subPageId d) \<and> subPageId d \<noteq> notionPageId d
             then [CacheDelete (subPageId d)] else []) @
            [AddCommentToBlock b (addCommentToBlockOk up),
             PostMessage ch (UpdateDone (areaName d) url)],
            None)"
  using assms by (simp add: continueCorrection_def applyCorrection_def)



lemma continueCorrection_already:
  "correctionId d \<in> processedCorrections s \<Longrightarrow>
   continueCorrection u ch txt d up s = (clearPendingDm u s, [PostMessage ch AlreadyApplied], None)"
  by (simp add: continueCorrection_def)

lemma continuePendingDm_correction:
  "action p = FaqCorrectionApproval d \<Longrightarrow>
   continuePendingDm u ch txt p up s = continueCorrection u ch txt d up s"
  by (simp add: continuePendingDm_def)

text \<open>
  Handlers that do not overlap: over any sequence of direct messages and stored pending
  actions in which every handler has finished before the next step begins, at most one
  call of \<open>updateFaqBlock\<close> succeeds for a correction, and none once the correction is
  marked as applied; the set of applied corrections only grows. With the correction marked,
  a reply of a user whose pending action refers to it gets the message \<open>AlreadyApplied\<close>,
  loses that pending action, and nothing else happens. A successful approval updates the block
  once, marks the correction, and leaves no pending action of any user that refers to it.
\<close>

lemma sequential_approvals_apply_once:
  "appliedCount c (snd (dm_run steps s)) \<le> (if c \<in> processedCorrections s then 0 else 1) \<and>
   processedCorrections s \<subseteq> processedCorrections (fst (dm_run steps s)) \<and>
   (action p = FaqCorrectionApproval d \<and> correctionId d = c \<and> c \<in> processedCorrections s \<longrightarrow>
      continuePendingDm u ch txt p up s =
        (clearPendingDm u s, [PostMessage ch AlreadyApplied], None)) \<and>
   (action p = FaqCorrectionApproval d \<and> correctionId d = c \<and> c \<notin> processedCorrections s \<and>
    isApproval (trim (toLowerCase txt)) \<and> blockId d = Some b \<and> b \<noteq> [] \<and>
    updateFaqBlockResult up = Inr url \<longrightarrow>
      appliedCount c (fst (snd (continuePendingDm u ch txt p up s))) = 1 \<and>
      c \<in> processedCorrections (fst (continuePendingDm u ch txt p up s)) \<and>
      pendingDmActions (fst (continuePendingDm u ch txt p up s)) u = None \<and>
      (\<forall>u' p'. pendingDmActions (fst (continuePendingDm u ch txt p up s)) u' = Some p'
           \<longrightarrow> \<not> refersTo c p'))"
proof -
  obtain s' effects where r: "dm_run steps s = (s', effects)" by (cases "dm_run steps s")
  have a: "appliedCount c (snd (dm_run steps s)) \<le> (if c \<in> processedCorrections s then 0 else 1)"
          "processedCorrections s \<subseteq> processedCorrections (fst (dm_run steps s))"
    using dm_run_ok[OF r, of c] r by simp_all
  have b: "continuePendingDm u ch txt p up s =
        (clearPendingDm u s, [PostMessage ch AlreadyApplied], None)"
    if "action p = FaqCorrectionApproval d" "correctionId d = c" "c \<in> processedCorrections s"
    using that by (simp add: continuePendingDm_correction continueCorrection_already)
  have c: "appliedCount c (fst (snd (continuePendingDm u ch txt p up s))) = 1 \<and>
      c \<in> processedCorrections (fst (continuePendingDm u ch txt p up s)) \<and>
      pendingDmActions (fst (continuePendingDm u ch txt p up s)) u = None \<and>
      (\<forall>u' p'. pendingDmActions (fst (continuePendingDm u ch txt p up s)) u' = Some p'
           \<longrightarrow> \<not> refersTo c p')"
    if h: "action p = FaqCorrectionApproval d" "correctionId d = c" "c \<notin> processedCorrections s"
      "isApproval (trim (toLowerCase txt))" "blockId d = Some b" "b \<noteq> []"
      "updateFaqBlockResult up = Inr url"
  proof -
    have nc: "correctionId d \<notin> processedCorrections s" using h by simp
    note eq = continueCorrection_success[OF nc h(4) h(5) h(6) h(7), of u ch]
    have e1: "continuePendingDm u ch txt p up s = continueCorrection u ch txt d up s"
      by (rule continuePendingDm_correction[OF h(1)])
    have "appliedCount c (fst (snd (continuePendingDm u ch txt p up s))) = 1"
      unfolding e1 eq using h(2) by simp
    moreover have "c \<in> processedCorrections (fst (continuePendingDm u ch txt p up s))"
      unfolding e1 eq using h(2) by simp
    moreover have "pendingDmActions (fst (continuePendingDm u ch txt p up s)) u = None"
      unfolding e1 eq by (simp add: pending_clearPendingDmsForCorrection)
    moreover have "\<forall>u' p'. pendingDmActions (fst (continuePendingDm u ch txt p up s)) u' = Some p'
           \<longrightarrow> \<not> refersTo c p'"
      unfolding e1 eq using h(2) by (auto dest: no_sibling_after_clear)
    ultimately show ?thesis by blast
  qed
  show ?thesis using a b c by blast
qed











lemmas dm_eval =
  handleDm_unfold ignoresEvent_def eventText_def exampleEvent_def truthy_def trim_def
  is_space_def alreadySeen_def dedupeKey_def dedupeTtlMs_def getPendingDm_def
  exampleDmState_def examplePending_def exampleCorrection_def dispatchDm_def
  continuePendingDm_def continueCorrection_def applyCorrection_def reportThrown_def
  clearPendingDm_def clearPendingDmsForCorrection_def setPendingDm_def refersTo_def
  upstreamOk_def upstreamFailing_def PENDING_DM_EXPIRY_MS_def Let_def
  toLowerCase_def toLowerChar_def upperAlpha_def upperLatin_def lowerLatin_def lowerAlpha_def isApproval_def
  approvalWords_def startsWithWord_def handleParsedIntent_def cannotAutoUpdate_def
  reviseCorrection_def isRejection_def rejectionWords_def is_word_char_def digitChars_def

lemma example_run:
  "snd (dm_run exampleSteps exampleDmState) =
     [UpdateFaqBlock ''ans_1'' ''b1'' ''Refunds take 7 days.'' True,
      CacheDelete (Some ''p1''),
      AddCommentToBlock ''b1'' True,
      PostMessage ''DU1'' (UpdateDone ''Billing'' ''https://notion.so/b1''),
      PostMessage ''DU2'' AlreadyApplied]"
  by (simp add: exampleSteps_def dm_eval split: prod.splits)

lemma example_facts:
  "action examplePending = FaqCorrectionApproval exampleCorrection"
  "correctionId exampleCorrection = ''ans_1''"
  "''ans_1'' \<notin> processedCorrections exampleDmState"
  "blockId exampleCorrection = Some ''b1''"
  "updateFaqBlockResult upstreamOk = Inr ''https://notion.so/b1''"
  "updateFaqBlockResult upstreamFailing = Inl ''timeout''"
  "reviseSuggestedUpdateResult upstreamFailing = Inl ''overloaded''"
  "pendingDmActions exampleDmState ''U1'' = Some examplePending"
  "pendingDmActions exampleDmState ''U2'' = Some examplePending"
  "expiresAt examplePending = 700000"
  by (simp_all add: examplePending_def exampleCorrection_def exampleDmState_def upstreamOk_def
        upstreamFailing_def)

text \<open>
  Two approvers of correction \<open>ans_1\<close>, one after the other: the first approval updates
  the block; the second approver, whose pending action is stored again in between, is told
  that the update was already applied; one update in all.
\<close>

lemma sequential_approvals_example:
  "action examplePending = FaqCorrectionApproval exampleCorrection \<and>
   correctionId exampleCorrection = ''ans_1'' \<and>
   ''ans_1'' \<notin> processedCorrections exampleDmState \<and>
   isApproval (trim (toLowerCase ''Yes'')) \<and>
   blockId exampleCorrection = Some ''b1'' \<and>
   updateFaqBlockResult upstreamOk = Inr ''https://notion.so/b1'' \<and>
   appliedCount ''ans_1''
     (fst (snd (continuePendingDm ''U1'' ''DU1'' ''Yes'' examplePending upstreamOk exampleDmState))) = 1 \<and>
   ''ans_1'' \<in> processedCorrections
     (fst (continuePendingDm ''U1'' ''DU1'' ''Yes'' examplePending upstreamOk exampleDmState)) \<and>
   continuePendingDm ''U2'' ''DU2'' ''Yes'' examplePending upstreamOk
     (fst (continuePendingDm ''U1'' ''DU1'' ''Yes'' examplePending upstreamOk exampleDmState)) =
     (clearPendingDm ''U2''
        (fst (continuePendingDm ''U1'' ''DU1'' ''Yes'' examplePending upstreamOk exampleDmState)),
      [PostMessage ''DU2'' AlreadyApplied], None) \<and>
   appliedCount ''ans_1'' (snd (dm_run exampleSteps exampleDmState)) = 1"
proof -
  let ?s1 = "fst (continuePendingDm ''U1'' ''DU1'' ''Yes'' examplePending upstreamOk exampleDmState)"
  have first: "appliedCount ''ans_1''
     (fst (snd (continuePendingDm ''U1'' ''DU1'' ''Yes'' examplePending upstreamOk exampleDmState))) = 1 \<and>
     ''ans_1'' \<in> processedCorrections ?s1"
    using sequential_approvals_apply_once[where c = "''ans_1''" and s = exampleDmState
        and p = examplePending and d = exampleCorrection and u = "''U1''" and ch = "''DU1''"
        and ?txt = "''Yes''" and b = "''b1''" and up = upstreamOk
        and url = "''https://notion.so/b1''"]
      example_facts isApproval_yes
    by simp
  then have second: "continuePendingDm ''U2'' ''DU2'' ''Yes'' examplePending upstreamOk ?s1 =
     (clearPendingDm ''U2'' ?s1, [PostMessage ''DU2'' AlreadyApplied], None)"
    using sequential_approvals_apply_once[where c = "''ans_1''" and s = ?s1
        and p = examplePending and d = exampleCorrection and u = "''U2''" and ch = "''DU2''"
        and ?txt = "''Yes''" and up = upstreamOk]
      example_facts
    by simp
  have run: "appliedCount ''ans_1'' (snd (dm_run exampleSteps exampleDmState)) = 1"
    by (simp add: example_run)
  show ?thesis using first second run example_facts isApproval_yes by simp
qed

text \<open>
  Claim C8 on a pending approval that expires at 700000: a reply \<open>Yes\<close> at 700001 is
  not an approval any more; the listener answers as to any other message.
\<close>

theorem pending_action_expiry_witness:
  "pendingDmActions exampleDmState ''U1'' = Some examplePending \<and>
   expiresAt examplePending < 700001 \<and>
   ev_user (exampleEvent ''U1'' ''9.0'' ''Yes'') = ''U1'' \<and>
   fst (getPendingDm ''U1'' 700001 exampleDmState) = None \<and>
   pendingDmActions (snd (getPendingDm ''U1'' 700001 exampleDmState)) ''U1'' = None \<and>
   getPendingDm ''U1'' 100 (snd (getPendingDm ''U1'' 700001 exampleDmState)) =
     (None, snd (getPendingDm ''U1'' 700001 exampleDmState)) \<and>
   snd (handleDm None (exampleEvent ''U1'' ''9.0'' ''Yes'') upstreamOk 700001 exampleDmState) =
     snd (handleDm None (exampleEvent ''U1'' ''9.0'' ''Yes'') upstreamOk 700001
            (clearPendingDm ''U1'' exampleDmState)) \<and>
   snd (handleDm None (exampleEvent ''U1'' ''9.0'' ''Yes'') upstreamOk 700001 exampleDmState) =
     [PostMessage ''DU1'' (IntentReply ''general'')]"
proof -
  have h: "pendingDmActions exampleDmState ''U1'' = Some examplePending"
          "expiresAt examplePending < 700001"
          "ev_user (exampleEvent ''U1'' ''9.0'' ''Yes'') = ''U1''"
    by (simp_all add: example_facts exampleEvent_def)
  have e: "snd (handleDm None (exampleEvent ''U1'' ''9.0'' ''Yes'') upstreamOk 700001 exampleDmState) =
     [PostMessage ''DU1'' (IntentReply ''general'')]"
    by (simp add: dm_eval split: prod.splits)
  show ?thesis
    using pending_action_expiry[where s = exampleDmState and u = "''U1''" and p = examplePending
        and t = 700001 and ev = "exampleEvent ''U1'' ''9.0'' ''Yes''" and botId = None
        and up = upstreamOk] h e
    by simp
qed





section \<open>Approvals in flight\<close>

text \<open>A handler that waits and is not interrupted does what \<open>applyCorrection\<close> does.\<close>

lemma runToEnd_update:
  "runToEnd (AwaitUpdate u ch d b) up s =
     (fst (applyCorrection u ch d b up s), fst (snd (applyCorrection u ch d b up s)))"
  by (simp add: runToEnd_def applyCorrection_def split: sum.splits)

lemma approvalStarts_fresh:
  assumes "approvalStarts botId ev now s = Some (s1, k)"
  shows "\<not> ignoresEvent botId ev \<and> eventText ev \<noteq> [] \<and>
     \<not> fst (alreadySeen (dedupeKey ev) dedupeTtlMs now (seen s)) \<and>
     (\<exists>p d b. getPendingDm (ev_user ev) now
                (s\<lparr> seen := snd (alreadySeen (dedupeKey ev) dedupeTtlMs now (seen s)) \<rparr>) =
                (Some p, s1) \<and>
        action p = FaqCorrectionApproval d \<and> correctionId d \<notin> processedCorrections s1 \<and>
        isApproval (trim (toLowerCase (eventText ev))) \<and> blockId d = Some b \<and> b \<noteq> [] \<and>
        k = AwaitUpdate (ev_user ev) (ev_channel ev) d b)"
  using assms
  by (auto simp: approvalStarts_def case_prod_beta prod_eq_iff
        split: if_splits option.splits pending_intent.splits)

text \<open>
  A message whose handler gets to the update and is not interrupted is handled as
  \<open>handleDm\<close> says.
\<close>

lemma handleDm_resumed:
  assumes "approvalStarts botId ev now s = Some (s1, k)"
  shows "handleDm botId ev up now s = runToEnd k up s1"
proof -
  from approvalStarts_fresh[OF assms] obtain p d b where
    a: "\<not> ignoresEvent botId ev" "eventText ev \<noteq> []"
      "\<not> fst (alreadySeen (dedupeKey ev) dedupeTtlMs now (seen s))"
    and g: "getPendingDm (ev_user ev) now
                (s\<lparr> seen := snd (alreadySeen (dedupeKey ev) dedupeTtlMs now (seen s)) \<rparr>) =
                (Some p, s1)"
    and p: "action p = FaqCorrectionApproval d" "correctionId d \<notin> processedCorrections s1"
      "isApproval (trim (toLowerCase (eventText ev)))" "blockId d = Some b" "b \<noteq> []"
    and k: "k = AwaitUpdate (ev_user ev) (ev_channel ev) d b"
    by blast
  have c: "continuePendingDm (ev_user ev) (ev_channel ev) (eventText ev) p up s1 =
      applyCorrection (ev_user ev) (ev_channel ev) d b up s1"
    using p by (simp add: continuePendingDm_def continueCorrection_def)
  have n: "snd (snd (applyCorrection (ev_user ev) (ev_channel ev) d b up s1)) = None"
    by (simp add: applyCorrection_def split: sum.splits)
  have "handleDm botId ev up now s =
      reportThrown (ev_channel ev) (applyCorrection (ev_user ev) (ev_channel ev) d b up s1)"
    using a g c by (simp add: handleDm_def case_prod_beta dispatchDm_def)
  also have "\<dots> = (fst (applyCorrection (ev_user ev) (ev_channel ev) d b up s1),
      fst (snd (applyCorrection (ev_user ev) (ev_channel ev) d b up s1)))"
    using n by (cases "applyCorrection (ev_user ev) (ev_channel ev) d b up s1")
      (simp add: reportThrown_def)
  finally show ?thesis unfolding k runToEnd_update .
qed

lemma concurrent_first_arrives:
  "approvalStarts None (exampleEvent ''U1'' ''1.0'' ''Yes'') 100000 exampleDmState =
     Some (exampleDmState\<lparr> seen := [''dm:DU1:1.0'' \<mapsto> 100000] \<rparr>,
           AwaitUpdate ''U1'' ''DU1'' exampleCorrection ''b1'')"
  by (simp add: approvalStarts_def dm_eval)

lemma concurrent_second_arrives:
  "approvalStarts None (exampleEvent ''U2'' ''2.0'' ''Yes'') 100100
       (exampleDmState\<lparr> seen := [''dm:DU1:1.0'' \<mapsto> 100000] \<rparr>) =
     Some (exampleDmState\<lparr> seen := [''dm:DU1:1.0'' \<mapsto> 100000, ''dm:DU2:2.0'' \<mapsto> 100100] \<rparr>,
           AwaitUpdate ''U2'' ''DU2'' exampleCorrection ''b1'')"
  by (simp add: approvalStarts_def dm_eval fun_eq_iff)

text \<open>
  Claim C2 fails when two approvals are in flight at once. U1 and U2 both hold a pending
  action for correction \<open>ans_1\<close>, which is not marked as applied. Both answer \<open>Yes\<close>
  before the update of U1 has returned: both handlers have read the set of applied
  corrections by then, both call \<open>updateFaqBlock\<close> with success, and both approvers are told
  that the entry was updated; nobody gets the message \<open>AlreadyApplied\<close>.
\<close>

theorem concurrent_approvals_update_twice:
  "pendingDmActions exampleDmState ''U1'' = Some examplePending \<and>
   pendingDmActions exampleDmState ''U2'' = Some examplePending \<and>
   action examplePending = FaqCorrectionApproval exampleCorrection \<and>
   correctionId exampleCorrection = ''ans_1'' \<and>
   ''ans_1'' \<notin> processedCorrections exampleDmState \<and>
   snd (sched_run concurrentApprovals (exampleDmState, [])) =
     [UpdateFaqBlock ''ans_1'' ''b1'' ''Refunds take 7 days.'' True,
      CacheDelete (Some ''p1''),
      AddCommentToBlock ''b1'' True,
      PostMessage ''DU1'' (UpdateDone ''Billing'' ''https://notion.so/b1''),
      UpdateFaqBlock ''ans_1'' ''b1'' ''Refunds take 7 days.'' True,
      CacheDelete (Some ''p1''),
      AddCommentToBlock ''b1'' True,
      PostMessage ''DU2'' (UpdateDone ''Billing'' ''https://notion.so/b1'')] \<and>
   appliedCount ''ans_1'' (snd (sched_run concurrentApprovals (exampleDmState, []))) = 2 \<and>
   snd (fst (sched_run concurrentApprovals (exampleDmState, []))) = []"
proof -
  let ?s1 = "exampleDmState\<lparr> seen := [''dm:DU1:1.0'' \<mapsto> 100000] \<rparr>"
  let ?s2 = "exampleDmState\<lparr> seen := [''dm:DU1:1.0'' \<mapsto> 100000, ''dm:DU2:2.0'' \<mapsto> 100100] \<rparr>"
  let ?k1 = "AwaitUpdate ''U1'' ''DU1'' exampleCorrection ''b1''"
  let ?k2 = "AwaitUpdate ''U2'' ''DU2'' exampleCorrection ''b1''"
  let ?c1 = "AwaitComment ''U1'' ''DU1'' exampleCorrection ''b1'' ''https://notion.so/b1''"
  let ?c2 = "AwaitComment ''U2'' ''DU2'' exampleCorrection ''b1'' ''https://notion.so/b1''"
  let ?s3 = "fst (resume ?c1 upstreamOk ?s2)"
  let ?s4 = "fst (resume ?c2 upstreamOk ?s3)"
  have a1: "sched_apply (Arrives None (exampleEvent ''U1'' ''1.0'' ''Yes'') upstreamOk 100000)
      (exampleDmState, []) = ((?s1, [?k1]), [])"
    by (simp add: concurrent_first_arrives)
  have a2: "sched_apply (Arrives None (exampleEvent ''U2'' ''2.0'' ''Yes'') upstreamOk 100100)
      (?s1, [?k1]) = ((?s2, [?k1, ?k2]), [])"
    by (simp add: concurrent_second_arrives)
  have a3: "sched_apply (Settles 0 upstreamOk) (?s2, [?k1, ?k2]) =
      ((?s2, [?c1, ?k2]),
       [UpdateFaqBlock ''ans_1'' ''b1'' ''Refunds take 7 days.'' True, CacheDelete (Some ''p1'')])"
    by (simp add: upstreamOk_def exampleCorrection_def truthy_def)
  have a4: "sched_apply (Settles 0 upstreamOk) (?s2, [?c1, ?k2]) =
      ((?s3, [?k2]),
       [AddCommentToBlock ''b1'' True,
        PostMessage ''DU1'' (UpdateDone ''Billing'' ''https://notion.so/b1'')])"
    by (simp add: upstreamOk_def exampleCorrection_def)
  have a5: "sched_apply (Settles 0 upstreamOk) (?s3, [?k2]) =
      ((?s3, [?c2]),
       [UpdateFaqBlock ''ans_1'' ''b1'' ''Refunds take 7 days.'' True, CacheDelete (Some ''p1'')])"
    by (simp add: upstreamOk_def exampleCorrection_def truthy_def)
  have a6: "sched_apply (Settles 0 upstreamOk) (?s3, [?c2]) =
      ((?s4, []),
       [AddCommentToBlock ''b1'' True,
        PostMessage ''DU2'' (UpdateDone ''Billing'' ''https://notion.so/b1'')])"
    by (simp add: upstreamOk_def exampleCorrection_def)
  have r: "sched_run concurrentApprovals (exampleDmState, []) =
     ((?s4, []),
      [UpdateFaqBlock ''ans_1'' ''b1'' ''Refunds take 7 days.'' True,
       CacheDelete (Some ''p1''),
       AddCommentToBlock ''b1'' True,
       PostMessage ''DU1'' (UpdateDone ''Billing'' ''https://notion.so/b1''),
       UpdateFaqBlock ''ans_1'' ''b1'' ''Refunds take 7 days.'' True,
       CacheDelete (Some ''p1''),
       AddCommentToBlock ''b1'' True,
       PostMessage ''DU2'' (UpdateDone ''Billing'' ''https://notion.so/b1'')])"
    unfolding concurrentApprovals_def
    by (simp only: sched_run.simps a1 a2 a3 a4 a5 a6 prod.case append.simps)
  show ?thesis unfolding r by (simp add: example_facts)
qed

section \<open>Properties of the block search\<close>

lemma includesText_length: "includesText hay needle \<Longrightarrow> length needle \<le> length hay"
proof (induction hay)
  case Nil
  then show ?case by simp
next
  case (Cons c cs)
  show ?case
  proof (cases "take (length needle) (c # cs) = needle")
    case True
    then have "length needle = length (take (length needle) (c # cs))" by simp
    also have "\<dots> \<le> length (c # cs)" by simp
    finally show ?thesis .
  next
    case False
    then have "includesText cs needle" using Cons.prems by simp
    then have "length needle \<le> length cs" by (rule Cons.IH)
    then show ?thesis by simp
  qed
qed

lemma score_pos:
  assumes "includesText hay needle" and "needle \<noteq> []"
  shows "(0::rat) < of_nat (length needle) / of_nat (length hay)"
proof -
  have a: "0 < length needle" using assms(2) by simp
  have "length needle \<le> length hay" using assms(1) by (rule includesText_length)
  then have b: "0 < length hay" using a by linarith
  show ?thesis using a b by simp
qed

lemma accOk_init: "accOk (None, 0)"
  by (simp add: accOk_def)

lemma accOk_found: "(0::rat) < x \<Longrightarrow> accOk (Some m, x)"
  by (simp add: accOk_def)

lemma considerText_cases:
  "considerText bid ty t nt s acc = acc \<or>
   (includesText nt s \<and> snd acc < of_nat (length s) / of_nat (length nt) \<and>
    considerText bid ty t nt s acc =
      (Some \<lparr> m_blockId = bid, m_blockType = ty, m_matchedText = t, m_searchText = Some s \<rparr>,
       of_nat (length s) / of_nat (length nt)))"
  by (simp add: considerText_def Let_def)

lemma considerText_skip:
  "\<not> includesText nt s \<Longrightarrow> considerText bid ty t nt s acc = acc"
  by (simp add: considerText_def)

lemma considerText_low:
  "(includesText nt s \<longrightarrow> of_nat (length s) / of_nat (length nt) \<le> snd acc) \<Longrightarrow>
   considerText bid ty t nt s acc = acc"
  by (auto simp: considerText_def Let_def)

lemma considerText_snd_mono: "snd acc \<le> snd (considerText bid ty t nt s acc)"
  using considerText_cases[of bid ty t nt s acc] by auto

lemma considerText_accOk:
  assumes "s \<noteq> []" and "accOk acc"
  shows "accOk (considerText bid ty t nt s acc)"
  using considerText_cases[of bid ty t nt s acc]
proof
  assume "considerText bid ty t nt s acc = acc"
  then show ?thesis using assms(2) by simp
next
  assume a: "includesText nt s \<and> snd acc < of_nat (length s) / of_nat (length nt) \<and>
    considerText bid ty t nt s acc =
      (Some \<lparr> m_blockId = bid, m_blockType = ty, m_matchedText = t, m_searchText = Some s \<rparr>,
       of_nat (length s) / of_nat (length nt))"
  then have "(0::rat) < of_nat (length s) / of_nat (length nt)"
    using score_pos[of nt s] assms(1) by blast
  then show ?thesis using a accOk_found by metis
qed

lemma considerText_found:
  assumes "s \<noteq> []" and "accOk acc" and "includesText nt s"
  shows "fst (considerText bid ty t nt s acc) \<noteq> None"
proof (cases "fst acc")
  case None
  then have z: "snd acc = 0" using assms(2) by (simp add: accOk_def)
  have "(0::rat) < of_nat (length s) / of_nat (length nt)"
    using score_pos[OF assms(3) assms(1)] .
  then have "snd acc < of_nat (length s) / of_nat (length nt)" using z by simp
  then show ?thesis using assms(3) by (simp add: considerText_def Let_def)
next
  case (Some m)
  then show ?thesis using considerText_cases[of bid ty t nt s acc] by auto
qed

lemma considerText_keeps_found:
  "fst acc \<noteq> None \<Longrightarrow> fst (considerText bid ty t nt s acc) \<noteq> None"
  using considerText_cases[of bid ty t nt s acc] by auto

lemma considerText_id:
  "fst (considerText bid ty t nt s acc) = fst acc \<or>
   (\<exists>m. fst (considerText bid ty t nt s acc) = Some m \<and> m_blockId m = bid \<and> includesText nt s)"
  using considerText_cases[of bid ty t nt s acc] by auto

text \<open>The inner loop.\<close>

lemma matchTexts_none:
  "\<not> list_ex (includesText nt) nsts \<Longrightarrow> matchTexts bid ty t nt nsts acc = acc"
  by (induction nsts arbitrary: acc) (simp_all add: considerText_skip)

lemma matchTexts_low:
  "list_all (\<lambda>s. includesText nt s \<longrightarrow> of_nat (length s) / of_nat (length nt) \<le> snd acc) nsts \<Longrightarrow>
   matchTexts bid ty t nt nsts acc = acc"
  by (induction nsts arbitrary: acc) (simp_all add: considerText_low)

lemma matchTexts_snd_mono: "snd acc \<le> snd (matchTexts bid ty t nt nsts acc)"
proof (induction nsts arbitrary: acc)
  case Nil
  show ?case by simp
next
  case (Cons s nsts)
  have "snd acc \<le> snd (considerText bid ty t nt s acc)" by (rule considerText_snd_mono)
  also have "\<dots> \<le> snd (matchTexts bid ty t nt nsts (considerText bid ty t nt s acc))"
    by (rule Cons.IH)
  finally show ?case by simp
qed

lemma matchTexts_accOk:
  "list_all (\<lambda>s. s \<noteq> []) nsts \<Longrightarrow> accOk acc \<Longrightarrow> accOk (matchTexts bid ty t nt nsts acc)"
  by (induction nsts arbitrary: acc) (simp_all add: considerText_accOk)

lemma matchTexts_keeps_found:
  "fst acc \<noteq> None \<Longrightarrow> fst (matchTexts bid ty t nt nsts acc) \<noteq> None"
proof (induction nsts arbitrary: acc)
  case Nil
  then show ?case by simp
next
  case (Cons s nsts)
  have "fst (considerText bid ty t nt s acc) \<noteq> None"
    by (rule considerText_keeps_found[OF Cons.prems])
  from Cons.IH[OF this] show ?case by simp
qed

lemma matchTexts_found:
  "list_all (\<lambda>s. s \<noteq> []) nsts \<Longrightarrow> accOk acc \<Longrightarrow> list_ex (includesText nt) nsts \<Longrightarrow>
   fst (matchTexts bid ty t nt nsts acc) \<noteq> None"
proof (induction nsts arbitrary: acc)
  case Nil
  then show ?case by simp
next
  case (Cons s nsts)
  have ne: "s \<noteq> []" and rest: "list_all (\<lambda>s. s \<noteq> []) nsts" using Cons.prems(1) by simp_all
  have ok: "accOk (considerText bid ty t nt s acc)" by (rule considerText_accOk[OF ne Cons.prems(2)])
  show ?case
  proof (cases "includesText nt s")
    case True
    have "fst (considerText bid ty t nt s acc) \<noteq> None"
      by (rule considerText_found[OF ne Cons.prems(2) True])
    from matchTexts_keeps_found[OF this] show ?thesis by simp
  next
    case False
    then have "list_ex (includesText nt) nsts" using Cons.prems(3) by simp
    from Cons.IH[OF rest ok this] show ?thesis by simp
  qed
qed

lemma matchTexts_id:
  "fst (matchTexts bid ty t nt nsts acc) = fst acc \<or>
   (\<exists>m. fst (matchTexts bid ty t nt nsts acc) = Some m \<and> m_blockId m = bid \<and>
        list_ex (includesText nt) nsts)"
proof (induction nsts arbitrary: acc)
  case Nil
  show ?case by simp
next
  case (Cons s nsts)
  show ?case
    using Cons.IH[of "considerText bid ty t nt s acc"] considerText_id[of bid ty t nt s acc]
    by auto
qed

lemma childScore_pos: "0 < childScore"
  by (simp add: childScore_def)

lemma creditChild_none [simp]: "creditChild bid ty None acc = acc"
  by (simp add: creditChild_def)

lemma creditChild_accOk: "accOk acc \<Longrightarrow> accOk (creditChild bid ty r acc)"
  using childScore_pos by (cases r) (auto simp: creditChild_def accOk_def)

lemma creditChild_found:
  "accOk acc \<Longrightarrow> (fst (creditChild bid ty r acc) \<noteq> None) = (fst acc \<noteq> None \<or> r \<noteq> None)"
  using childScore_pos by (cases r) (auto simp: creditChild_def accOk_def)

lemma creditChild_id:
  "fst (creditChild bid ty r acc) = fst acc \<or>
   (\<exists>m. fst (creditChild bid ty r acc) = Some m \<and> m_blockId m = bid \<and> r \<noteq> None)"
  by (cases r) (auto simp: creditChild_def)

lemma creditChild_high: "childScore \<le> snd acc \<Longrightarrow> creditChild bid ty r acc = acc"
  by (cases r) (auto simp: creditChild_def)

lemma creditChild_low:
  "snd acc < childScore \<Longrightarrow> r \<noteq> None \<Longrightarrow>
   \<exists>m. creditChild bid ty r acc = (Some m, childScore) \<and> m_blockId m = bid"
  by (cases r) (auto simp: creditChild_def)

text \<open>Nothing matches anywhere: the loop changes nothing.\<close>

lemma scanBlocks_no_match:
  "list_all (\<lambda>b. \<not> directMatch nsts b) (allBlocks blocks) \<Longrightarrow> scanBlocks nsts blocks acc = acc"
proof (induction nsts blocks acc rule: scanBlocks.induct)
  case (1 nsts acc)
  show ?case by simp
next
  case (2 nsts bid ty blockText hc listed ks rest acc)
  have here: "\<not> list_ex (includesText (normalizeText blockText)) nsts"
    and below: "list_all (\<lambda>b. \<not> directMatch nsts b) (allBlocks ks)"
    and after: "list_all (\<lambda>b. \<not> directMatch nsts b) (allBlocks rest)"
    using "2.prems" by (simp_all add: directMatch_def)
  show ?case
  proof (cases "blockText = []")
    case True
    then show ?thesis using "2.IH"(1)[OF True after] by simp
  next
    case False
    let ?K = "if hc \<and> extractPageId bid \<noteq> None \<and> listed
              then fst (scanBlocks nsts ks (None, 0)) else None"
    let ?X = "creditChild bid ty ?K (matchTexts bid ty blockText (normalizeText blockText) nsts acc)"
    have m: "matchTexts bid ty blockText (normalizeText blockText) nsts acc = acc"
      by (rule matchTexts_none[OF here])
    have k: "?K = None"
    proof (cases "hc \<and> extractPageId bid \<noteq> None \<and> listed")
      case True
      have "scanBlocks nsts ks (None, 0) = (None, 0)" by (rule "2.IH"(2)[OF False True below])
      then show ?thesis by simp
    next
      case False
      then show ?thesis by (simp only: if_False)
    qed
    have x: "?X = acc" by (simp only: m k creditChild_none)
    have step: "scanBlocks nsts (Block bid ty blockText hc listed ks # rest) acc =
                scanBlocks nsts rest ?X"
      using False by (simp only: scanBlocks.simps if_False)
    have "scanBlocks nsts rest ?X = ?X" by (rule "2.IH"(3)[OF False after])
    then show ?thesis unfolding step x .
  qed
qed

lemma scanBlocks_empty_text:
  "b_text b = [] \<Longrightarrow> scanBlocks nsts (b # rest) acc = scanBlocks nsts rest acc"
  by (cases b) simp

lemma scanBlocks_text:
  "b_text b \<noteq> [] \<Longrightarrow> scanBlocks nsts (b # rest) acc = scanBlocks nsts rest (visit nsts b acc)"
  by (cases b) (auto simp add: visit_def childSearch_def)

lemma reachedMatch_unfold:
  "reachedMatch nsts b =
     (b_text b \<noteq> [] \<and> (directMatch nsts b \<or>
        (has_children b \<and> extractPageId (b_id b) \<noteq> None \<and> kidsListed b \<and>
         list_ex (reachedMatch nsts) (kids b))))"
  by (cases b) (simp add: directMatch_def)

lemma reachedMatch_alt:
  "reachedMatch nsts b = (b_text b \<noteq> [] \<and> (directMatch nsts b \<or> nestedMatch nsts b))"
  by (subst reachedMatch_unfold) (auto simp: nestedMatch_def)

lemma visit_accOk:
  assumes "list_all (\<lambda>s. s \<noteq> []) nsts" and "accOk acc"
  shows "accOk (visit nsts b acc)"
  unfolding visit_def by (intro creditChild_accOk matchTexts_accOk assms)

lemma visit_found:
  assumes ne: "list_all (\<lambda>s. s \<noteq> []) nsts" and ok: "accOk acc"
  shows "(fst (visit nsts b acc) \<noteq> None) =
         (fst acc \<noteq> None \<or> directMatch nsts b \<or> childSearch nsts b \<noteq> None)"
proof -
  let ?acc1 = "matchTexts (b_id b) (b_type b) (b_text b) (normalizeText (b_text b)) nsts acc"
  have ok1: "accOk ?acc1" by (rule matchTexts_accOk[OF ne ok])
  have d: "(fst ?acc1 \<noteq> None) = (fst acc \<noteq> None \<or> directMatch nsts b)"
  proof (cases "directMatch nsts b")
    case True
    then have "fst ?acc1 \<noteq> None"
      using matchTexts_found[OF ne ok] by (simp add: directMatch_def)
    then show ?thesis using True by simp
  next
    case False
    then have "?acc1 = acc" by (simp add: directMatch_def matchTexts_none)
    then show ?thesis using False by simp
  qed
  show ?thesis unfolding visit_def creditChild_found[OF ok1] d by blast
qed

lemma scanBlocks_accOk:
  "list_all (\<lambda>s. s \<noteq> []) nsts \<Longrightarrow> accOk acc \<Longrightarrow> accOk (scanBlocks nsts blocks acc)"
proof (induction blocks arbitrary: acc)
  case Nil
  then show ?case by simp
next
  case (Cons b blocks)
  show ?case
  proof (cases "b_text b = []")
    case True
    then show ?thesis using Cons by (simp add: scanBlocks_empty_text)
  next
    case False
    have "accOk (visit nsts b acc)" by (rule visit_accOk[OF Cons.prems])
    from Cons.IH[OF Cons.prems(1) this] show ?thesis using False by (simp add: scanBlocks_text)
  qed
qed

text \<open>Something is found exactly when it was found before or a match is reached.\<close>

lemma scanBlocks_found:
  "list_all (\<lambda>s. s \<noteq> []) nsts \<Longrightarrow> accOk acc \<Longrightarrow>
   (fst (scanBlocks nsts blocks acc) \<noteq> None) =
   (fst acc \<noteq> None \<or> list_ex (reachedMatch nsts) blocks)"
proof (induction nsts blocks acc rule: scanBlocks.induct)
  case (1 nsts acc)
  show ?case by simp
next
  case (2 nsts bid ty blockText hc listed ks rest acc)
  let ?b = "Block bid ty blockText hc listed ks"
  note ne = "2.prems"(1) and ok = "2.prems"(2)
  show ?case
  proof (cases "blockText = []")
    case True
    have "(fst (scanBlocks nsts rest acc) \<noteq> None) =
          (fst acc \<noteq> None \<or> list_ex (reachedMatch nsts) rest)"
      by (rule "2.IH"(1)[OF True ne ok])
    then show ?thesis using True by simp
  next
    case False
    have tx: "b_text ?b \<noteq> []" using False by simp
    have cs: "(childSearch nsts ?b \<noteq> None) =
              (hc \<and> extractPageId bid \<noteq> None \<and> listed \<and> list_ex (reachedMatch nsts) ks)"
    proof (cases "hc \<and> extractPageId bid \<noteq> None \<and> listed")
      case True
      have "(fst (scanBlocks nsts ks (None, 0)) \<noteq> None) = list_ex (reachedMatch nsts) ks"
        using "2.IH"(2)[OF False True ne accOk_init] by simp
      then show ?thesis using True by (simp add: childSearch_def)
    next
      case False
      then show ?thesis by (auto simp: childSearch_def)
    qed
    have v: "(fst (visit nsts ?b acc) \<noteq> None) = (fst acc \<noteq> None \<or> reachedMatch nsts ?b)"
      unfolding visit_found[OF ne ok] cs using False by (auto simp: directMatch_def)
    have okv: "accOk (visit nsts ?b acc)" by (rule visit_accOk[OF ne ok])
    have vis: "visit nsts ?b acc =
        creditChild bid ty
          (if hc \<and> extractPageId bid \<noteq> None \<and> listed
           then fst (scanBlocks nsts ks (None, 0)) else None)
          (matchTexts bid ty blockText (normalizeText blockText) nsts acc)"
      by (auto simp add: visit_def childSearch_def)
    have "(fst (scanBlocks nsts rest (visit nsts ?b acc)) \<noteq> None) =
          (fst (visit nsts ?b acc) \<noteq> None \<or> list_ex (reachedMatch nsts) rest)"
      unfolding vis by (rule "2.IH"(3)[OF False ne okv[unfolded vis]])
    then show ?thesis
      unfolding scanBlocks_text[OF tx] v by (simp only: list_ex_Cons_iff disj_assoc)
  qed
qed

lemma childSearch_found:
  "list_all (\<lambda>s. s \<noteq> []) nsts \<Longrightarrow>
   (childSearch nsts b \<noteq> None) =
   (has_children b \<and> extractPageId (b_id b) \<noteq> None \<and> kidsListed b \<and>
    list_ex (reachedMatch nsts) (kids b))"
  using scanBlocks_found[of nsts "(None, 0)" "kids b"] accOk_init
  by (auto simp: childSearch_def)

lemma visit_id:
  assumes ne: "list_all (\<lambda>s. s \<noteq> []) nsts" and tx: "b_text b \<noteq> []"
  shows "fst (visit nsts b acc) = fst acc \<or>
         (\<exists>m. fst (visit nsts b acc) = Some m \<and> m_blockId m = b_id b \<and> reachedMatch nsts b)"
proof -
  let ?acc1 = "matchTexts (b_id b) (b_type b) (b_text b) (normalizeText (b_text b)) nsts acc"
  have a: "fst ?acc1 = fst acc \<or>
           (\<exists>m. fst ?acc1 = Some m \<and> m_blockId m = b_id b \<and> directMatch nsts b)"
    using matchTexts_id[of "b_id b" "b_type b" "b_text b" "normalizeText (b_text b)" nsts acc]
    by (simp add: directMatch_def)
  have c: "fst (visit nsts b acc) = fst ?acc1 \<or>
           (\<exists>m. fst (visit nsts b acc) = Some m \<and> m_blockId m = b_id b \<and>
                childSearch nsts b \<noteq> None)"
    unfolding visit_def by (rule creditChild_id)
  have n: "childSearch nsts b \<noteq> None \<Longrightarrow> nestedMatch nsts b"
    using childSearch_found[OF ne, of b] tx by (simp add: nestedMatch_def)
  show ?thesis using a c n tx unfolding reachedMatch_alt by metis
qed

text \<open>Whatever is found anew is a block of the list, with a match reached from it.\<close>

lemma scanBlocks_id:
  "list_all (\<lambda>s. s \<noteq> []) nsts \<Longrightarrow>
   fst (scanBlocks nsts blocks acc) = fst acc \<or>
   (\<exists>m b. fst (scanBlocks nsts blocks acc) = Some m \<and> b \<in> set blocks \<and>
          m_blockId m = b_id b \<and> reachedMatch nsts b)"
proof (induction blocks arbitrary: acc)
  case Nil
  show ?case by simp
next
  case (Cons b blocks)
  show ?case
  proof (cases "b_text b = []")
    case True
    show ?thesis using Cons.IH[OF Cons.prems, of acc] unfolding scanBlocks_empty_text[OF True]
      by auto
  next
    case False
    show ?thesis
      using Cons.IH[OF Cons.prems, of "visit nsts b acc"] visit_id[OF Cons.prems False, of acc]
      unfolding scanBlocks_text[OF False] by (metis list.set_intros(1) list.set_intros(2))
  qed
qed

lemma considerText_below:
  "(includesText nt s \<longrightarrow> of_nat (length s) / of_nat (length nt) < c) \<Longrightarrow> snd acc < c \<Longrightarrow>
   snd (considerText bid ty t nt s acc) < c"
  using considerText_cases[of bid ty t nt s acc] by auto

lemma matchTexts_below:
  "list_all (\<lambda>s. includesText nt s \<longrightarrow> of_nat (length s) / of_nat (length nt) < c) nsts \<Longrightarrow>
   snd acc < c \<Longrightarrow> snd (matchTexts bid ty t nt nsts acc) < c"
proof (induction nsts arbitrary: acc)
  case Nil
  then show ?case by simp
next
  case (Cons s nsts)
  have h: "includesText nt s \<longrightarrow> of_nat (length s) / of_nat (length nt) < c"
    and r: "list_all (\<lambda>s. includesText nt s \<longrightarrow> of_nat (length s) / of_nat (length nt) < c) nsts"
    using Cons.prems(1) by simp_all
  have "snd (considerText bid ty t nt s acc) < c" by (rule considerText_below[OF h Cons.prems(2)])
  from Cons.IH[OF r this] show ?case by simp
qed

lemma lowDirect_Cons: "lowDirect nsts (b # blocks) = (lowText nsts b \<and> lowDirect nsts blocks)"
  by (simp add: lowDirect_def)

lemma visit_settled:
  assumes "lowText nsts b" and "childScore \<le> snd acc"
  shows "visit nsts b acc = acc"
proof -
  have "list_all (\<lambda>s. includesText (normalizeText (b_text b)) s \<longrightarrow>
          of_nat (length s) / of_nat (length (normalizeText (b_text b))) \<le> snd acc) nsts"
    using assms by (auto simp: lowText_def list_all_iff)
  then have "matchTexts (b_id b) (b_type b) (b_text b) (normalizeText (b_text b)) nsts acc = acc"
    by (rule matchTexts_low)
  then show ?thesis using assms(2) by (simp add: visit_def creditChild_high)
qed

lemma scanBlocks_settled:
  "lowDirect nsts blocks \<Longrightarrow> childScore \<le> snd acc \<Longrightarrow> scanBlocks nsts blocks acc = acc"
proof (induction blocks)
  case Nil
  show ?case by simp
next
  case (Cons b blocks)
  have lb: "lowText nsts b" and lr: "lowDirect nsts blocks"
    using Cons.prems(1) by (simp_all add: lowDirect_Cons)
  show ?case
  proof (cases "b_text b = []")
    case True
    show ?thesis unfolding scanBlocks_empty_text[OF True] by (rule Cons.IH[OF lr Cons.prems(2)])
  next
    case False
    show ?thesis
      unfolding scanBlocks_text[OF False] visit_settled[OF lb Cons.prems(2)]
      by (rule Cons.IH[OF lr Cons.prems(2)])
  qed
qed

lemma visit_nested:
  assumes ne: "list_all (\<lambda>s. s \<noteq> []) nsts" and lb: "lowText nsts b"
    and below: "snd acc < childScore" and nm: "nestedMatch nsts b"
  shows "\<exists>m. visit nsts b acc = (Some m, childScore) \<and> m_blockId m = b_id b"
proof -
  let ?acc1 = "matchTexts (b_id b) (b_type b) (b_text b) (normalizeText (b_text b)) nsts acc"
  have b1: "snd ?acc1 < childScore"
    using lb below by (intro matchTexts_below) (simp_all add: lowText_def)
  have "childSearch nsts b \<noteq> None"
    using nm childSearch_found[OF ne, of b] by (simp add: nestedMatch_def)
  from creditChild_low[OF b1 this] show ?thesis by (simp add: visit_def)
qed

lemma visit_not_nested:
  assumes ne: "list_all (\<lambda>s. s \<noteq> []) nsts" and lb: "lowText nsts b"
    and below: "snd acc < childScore" and tx: "b_text b \<noteq> []" and nm: "\<not> nestedMatch nsts b"
  shows "snd (visit nsts b acc) < childScore"
proof -
  have "childSearch nsts b = None"
    using nm tx childSearch_found[OF ne, of b] by (auto simp: nestedMatch_def)
  then have "visit nsts b acc =
     matchTexts (b_id b) (b_type b) (b_text b) (normalizeText (b_text b)) nsts acc"
    by (simp add: visit_def)
  then show ?thesis using lb below matchTexts_below[of "normalizeText (b_text b)" childScore nsts acc]
    by (simp add: lowText_def)
qed

text \<open>
  With every own text below \<open>childScore\<close>, the first block that encloses a reached match
  is the one returned.
\<close>

lemma scanBlocks_nested_first:
  "list_all (\<lambda>s. s \<noteq> []) nsts \<Longrightarrow> lowDirect nsts blocks \<Longrightarrow> snd acc < childScore \<Longrightarrow>
   find (nestedMatch nsts) blocks = Some b \<Longrightarrow>
   \<exists>m. scanBlocks nsts blocks acc = (Some m, childScore) \<and> m_blockId m = b_id b"
proof (induction blocks arbitrary: acc)
  case Nil
  then show ?case by simp
next
  case (Cons h blocks)
  have lh: "lowText nsts h" and lr: "lowDirect nsts blocks"
    using Cons.prems(2) by (simp_all add: lowDirect_Cons)
  show ?case
  proof (cases "b_text h = []")
    case True
    then have "\<not> nestedMatch nsts h" by (simp add: nestedMatch_def)
    then have f: "find (nestedMatch nsts) blocks = Some b" using Cons.prems(4) by simp
    show ?thesis unfolding scanBlocks_empty_text[OF True]
      by (rule Cons.IH[OF Cons.prems(1) lr Cons.prems(3) f])
  next
    case False
    show ?thesis
    proof (cases "nestedMatch nsts h")
      case True
      then have bh: "b = h" using Cons.prems(4) by simp
      obtain m where m: "visit nsts h acc = (Some m, childScore)" "m_blockId m = b_id h"
        using visit_nested[OF Cons.prems(1) lh Cons.prems(3) True] by blast
      have "scanBlocks nsts blocks (Some m, childScore) = (Some m, childScore)"
        by (rule scanBlocks_settled[OF lr]) simp
      then show ?thesis unfolding scanBlocks_text[OF False] m(1) using m(2) bh by simp
    next
      case nn: False
      then have f: "find (nestedMatch nsts) blocks = Some b" using Cons.prems(4) by simp
      have bl: "snd (visit nsts h acc) < childScore"
        by (rule visit_not_nested[OF Cons.prems(1) lh Cons.prems(3) False nn])
      show ?thesis unfolding scanBlocks_text[OF False]
        by (rule Cons.IH[OF Cons.prems(1) lr bl f])
    qed
  qed
qed

lemma reachedMatch_nonempty: "reachedMatch nsts b \<Longrightarrow> nsts \<noteq> []"
  by (induction nsts b rule: reachedMatch.induct) (auto simp: list_ex_iff)

lemma normalizedSearchTexts_nonempty: "list_all (\<lambda>s. s \<noteq> []) (normalizedSearchTexts sts)"
  by (simp add: normalizedSearchTexts_def list_all_iff)

lemma findBlockByContent_scan:
  "extractPageId pageId = Some pid \<Longrightarrow> normalizedSearchTexts sts \<noteq> [] \<Longrightarrow>
   findBlockByContent pageId sts (Some blocks) =
     (case fst (scanBlocks (normalizedSearchTexts sts) blocks (None, 0)) of
        None \<Rightarrow> Inr None
      | Some bestMatch \<Rightarrow>
          Inr (Some \<lparr> bi_blockId = m_blockId bestMatch,
                       bi_blockUrl = ''https://notion.so/'' @ removeDashes pid @ ''#'' @
                                     removeDashes (m_blockId bestMatch),
                       bi_matchedText = m_matchedText bestMatch \<rparr>))"
  by (auto simp: findBlockByContent_def Let_def normalizedSearchTexts_def)

lemma findBlockByContent_no_texts:
  "extractPageId pageId \<noteq> None \<Longrightarrow> normalizedSearchTexts sts = [] \<Longrightarrow>
   findBlockByContent pageId sts listing = Inr None"
  by (auto simp: findBlockByContent_def Let_def)

lemma findBlockByContent_found:
  assumes "findBlockByContent pageId sts (Some blocks) = Inr (Some info)"
  shows "\<exists>m. fst (scanBlocks (normalizedSearchTexts sts) blocks (None, 0)) = Some m \<and>
             bi_blockId info = m_blockId m"
  using assms
  by (auto simp: findBlockByContent_def Let_def split: option.splits if_splits)

text \<open>
  Claim C9, amended: \<open>findBlockByContent\<close> returns \<open>null\<close> when no normalized search text
  is contained in the normalized text of any block of the page, nested blocks included. A
  block it returns is always a top-level block of the page, one whose own text matches or
  from which the search reaches a match in nested content. The search goes from a block down
  to its children only when the block has text of its own, is flagged as having children, has
  an identifier of a page and lists its children (\<open>reachedMatch\<close>, \<open>nestedMatch\<close>). A match
  that is reached in this way counts for the enclosing top-level block with the fixed score
  \<open>childScore\<close>: when the own text of every top-level block scores below it, the first
  top-level block that encloses a reached match is returned, not the nested block.
\<close>

theorem findBlockByContent_top_level:
  "(extractPageId pageId \<noteq> None \<and>
    list_all (\<lambda>b. \<not> directMatch (normalizedSearchTexts sts) b) (allBlocks blocks) \<longrightarrow>
      findBlockByContent pageId sts (Some blocks) = Inr None) \<and>
   (findBlockByContent pageId sts (Some blocks) = Inr (Some info) \<longrightarrow>
      (\<exists>b. b \<in> set blocks \<and> bi_blockId info = b_id b \<and>
           reachedMatch (normalizedSearchTexts sts) b)) \<and>
   (extractPageId pageId \<noteq> None \<and> lowDirect (normalizedSearchTexts sts) blocks \<and>
    find (nestedMatch (normalizedSearchTexts sts)) blocks = Some b \<longrightarrow>
      (\<exists>found. findBlockByContent pageId sts (Some blocks) = Inr (Some found) \<and>
               bi_blockId found = b_id b))"
proof -
  let ?n = "normalizedSearchTexts sts"
  note ne = normalizedSearchTexts_nonempty[of sts]
  have p1: "findBlockByContent pageId sts (Some blocks) = Inr None"
    if v: "extractPageId pageId \<noteq> None"
      and nm: "list_all (\<lambda>b. \<not> directMatch ?n b) (allBlocks blocks)"
  proof (cases "?n = []")
    case True
    show ?thesis by (rule findBlockByContent_no_texts[OF v True])
  next
    case False
    obtain pid where pid: "extractPageId pageId = Some pid" using v by blast
    have "scanBlocks ?n blocks (None, 0) = (None, 0)" by (rule scanBlocks_no_match[OF nm])
    then show ?thesis unfolding findBlockByContent_scan[OF pid False] by simp
  qed
  have p2: "\<exists>b. b \<in> set blocks \<and> bi_blockId info = b_id b \<and> reachedMatch ?n b"
    if r: "findBlockByContent pageId sts (Some blocks) = Inr (Some info)"
  proof -
    obtain m where m: "fst (scanBlocks ?n blocks (None, 0)) = Some m" "bi_blockId info = m_blockId m"
      using findBlockByContent_found[OF r] by blast
    show ?thesis using scanBlocks_id[OF ne, of blocks "(None, 0)"] m by auto
  qed
  have p3: "\<exists>found. findBlockByContent pageId sts (Some blocks) = Inr (Some found) \<and>
               bi_blockId found = b_id b"
    if v: "extractPageId pageId \<noteq> None" and low: "lowDirect ?n blocks"
      and f: "find (nestedMatch ?n) blocks = Some b"
  proof -
    obtain pid where pid: "extractPageId pageId = Some pid" using v by blast
    have "nestedMatch ?n b" using f by (auto simp: find_Some_iff)
    then obtain k where "reachedMatch ?n k" by (auto simp: nestedMatch_def list_ex_iff)
    then have nz: "?n \<noteq> []" by (rule reachedMatch_nonempty)
    have "snd (None :: block_match option, 0 :: rat) < childScore" by (simp add: childScore_def)
    from scanBlocks_nested_first[OF ne low this f]
    obtain m where m: "scanBlocks ?n blocks (None, 0) = (Some m, childScore)" "m_blockId m = b_id b"
      by blast
    show ?thesis unfolding findBlockByContent_scan[OF pid nz] using m by simp
  qed
  show ?thesis using p1 p2 p3 by blast
qed

lemmas notion_eval =
  findBlockByContent_def normalizedSearchTexts_def normalizeText_def toLowerCase_def
  toLowerChar_def upperAlpha_def upperLatin_def lowerLatin_def lowerAlpha_def trim_def is_space_def extractPageId_def
  hexRun_def is_hex_def removeDashes_def considerText_def creditChild_def childScore_def
  pageA_def idB1_def idB2_def idB3_def leafBlock_def nestedPage_def columnPage_def
  looseBlock_def exactBlock_def tightPage_def accountBlock_def passwordsBlock_def Let_def

lemma nested_example:
  "findBlockByContent pageA [''Reset your password''] (Some nestedPage) =
     Inr (Some \<lparr> bi_blockId = idB1,
                  bi_blockUrl = ''https://notion.so/'' @ pageA @ ''#'' @ idB1,
                  bi_matchedText = ''To reset  your password open Settings.'' \<rparr>)"
  by (simp add: notion_eval)

text \<open>
  A block without text is skipped together with its children: the paragraph inside the
  columns is not found.
\<close>

lemma column_example:
  "findBlockByContent pageA [''Reset your password''] (Some columnPage) = Inr None \<and>
   directMatch (normalizedSearchTexts [''Reset your password'']) leafBlock \<and>
   leafBlock \<in> set (allBlocks columnPage)"
  by (simp add: notion_eval directMatch_def)

text \<open>Letters and white space outside ASCII are normalized as well.\<close>

lemma normalizeText_latin:
  "normalizeText ([CHR 0xC9] @ ''T'' @ [CHR 0xC9, CHR 0xA0, CHR 0xA0] @ ''Now '') =
     [CHR 0xE9] @ ''t'' @ [CHR 0xE9] @ '' now''"
  by (simp add: normalizeText_def toLowerCase_def toLowerChar_def upperAlpha_def lowerAlpha_def
        upperLatin_def lowerLatin_def trim_def is_space_def)

text \<open>
  Claim C9 as stated fails: the tightest match, of score 1, is the child of the second
  top-level block, yet the first top-level block is returned, whose own text scores 19/20,
  above the fixed 9/10 that a nested match gets.
\<close>

theorem findBlockByContent_prefers_loose_top_level:
  "findBlockByContent pageA [''reset your password''] (Some tightPage) =
     Inr (Some \<lparr> bi_blockId = idB1,
                  bi_blockUrl = ''https://notion.so/'' @ pageA @ ''#'' @ idB1,
                  bi_matchedText = ''Reset your password!'' \<rparr>) \<and>
   tightPage = [looseBlock, passwordsBlock] \<and>
   b_id looseBlock = idB1 \<and> b_id passwordsBlock = idB2 \<and> idB2 \<noteq> idB1 \<and>
   kids passwordsBlock = [exactBlock] \<and>
   textScore ''reset your password'' exactBlock = 1 \<and>
   textScore ''reset your password'' looseBlock = 19 / 20"
  by (simp add: notion_eval textScore_def)

text \<open>
  Claim C9, amended, on a paragraph two levels below a toggle: the toggle at the top level is
  returned; a search text that occurs nowhere gives \<open>null\<close>.
\<close>

theorem findBlockByContent_top_level_witness:
  "extractPageId pageA \<noteq> None \<and>
   lowDirect (normalizedSearchTexts [''Reset your password'']) nestedPage \<and>
   find (nestedMatch (normalizedSearchTexts [''Reset your password''])) nestedPage =
     Some accountBlock \<and>
   (\<exists>found. findBlockByContent pageA [''Reset your password''] (Some nestedPage) =
              Inr (Some found) \<and> bi_blockId found = idB1) \<and>
   list_all (\<lambda>b. \<not> directMatch (normalizedSearchTexts [''refund policy'']) b)
     (allBlocks nestedPage) \<and>
   findBlockByContent pageA [''refund policy''] (Some nestedPage) = Inr None"
proof -
  have v: "extractPageId pageA \<noteq> None" by (simp add: notion_eval)
  have low: "lowDirect (normalizedSearchTexts [''Reset your password'']) nestedPage"
    by (simp add: notion_eval lowDirect_def lowText_def)
  have f: "find (nestedMatch (normalizedSearchTexts [''Reset your password''])) nestedPage =
     Some accountBlock"
    by (simp add: notion_eval nestedMatch_def)
  have nm: "list_all (\<lambda>b. \<not> directMatch (normalizedSearchTexts [''refund policy'']) b)
     (allBlocks nestedPage)"
    by (simp add: notion_eval directMatch_def)
  have i: "b_id accountBlock = idB1" by (simp add: accountBlock_def)
  note t1 = findBlockByContent_top_level[where pageId = pageA
      and sts = "[''Reset your password'']" and blocks = nestedPage and b = accountBlock]
  note t2 = findBlockByContent_top_level[where pageId = pageA
      and sts = "[''refund policy'']" and blocks = nestedPage]
  have c3: "\<exists>found. findBlockByContent pageA [''Reset your password''] (Some nestedPage) =
              Inr (Some found) \<and> bi_blockId found = idB1"
    using t1[THEN conjunct2, THEN conjunct2, THEN mp, OF conjI[OF v conjI[OF low f]]] i by simp
  have c1: "findBlockByContent pageA [''refund policy''] (Some nestedPage) = Inr None"
    using t2[THEN conjunct1, THEN mp, OF conjI[OF v nm]] .
  show ?thesis using v low f nm c1 c3 by blast
qed

section \<open>The correction job\<close>



lemma sendRequests_processed:
  "processedCorrections (fst (sendRequests send request data leads s)) = processedCorrections s"
proof (induction leads arbitrary: s)
  case Nil
  show ?case by simp
next
  case (Cons leadId rest)
  show ?case
    using Cons.IH by (cases "send leadId") (simp_all add: case_prod_beta setPendingDm_def)
qed
















end
